theory Spec2Isabelle
  imports Main "HOL-Library.Word"
begin

section \<open>Data model of lib/MelodyPlayer\<close>

type_synonym u8 = "8 word"
type_synonym u32 = "32 word"

text \<open>
  \<open>int\<close> and the enum classes with underlying type \<open>int\<close> are 32 bits wide on the
  ESP32. A value of such a type is kept as its 32 bits; \<open>sint\<close> reads it as the signed
  number, and the cast \<open>(uint32_t)\<close> leaves the bits as they are.
\<close>

type_synonym i32 = "32 word"

text \<open>
  \<open>note_t\<close> is declared by the Arduino core for the ESP32 (\<open>esp32-hal-ledc.h\<close>), not by
  this repository. The melody tables of \<open>src/melodyPlayer.cpp\<close> use exactly these twelve
  pitch names; \<open>MelodyPlayer.h\<close> defines \<open>REST\<close> as \<open>NOTE_MAX\<close>.
\<close>

datatype note_t =
  NOTE_C | NOTE_Cs | NOTE_D | NOTE_Eb | NOTE_E | NOTE_F
| NOTE_Fs | NOTE_G | NOTE_Gs | NOTE_A | NOTE_Bb | NOTE_B | NOTE_MAX

abbreviation REST :: note_t where
  "REST \<equiv> NOTE_MAX"

text \<open>\<open>enum class TEMPO\<close>: the eight presets, in quarter notes per minute.\<close>

datatype TEMPO =
  LARGO | LARGHETTO | ADAGIO | ANDANTE | MODERATO | ALLEGRO | PRESTO | PRESTISSIMO

fun TEMPO_int :: "TEMPO \<Rightarrow> int" where
  "TEMPO_int LARGO = 50"
| "TEMPO_int LARGHETTO = 63"
| "TEMPO_int ADAGIO = 71"
| "TEMPO_int ANDANTE = 92"
| "TEMPO_int MODERATO = 114"
| "TEMPO_int ALLEGRO = 144"
| "TEMPO_int PRESTO = 184"
| "TEMPO_int PRESTISSIMO = 204"

text \<open>\<open>enum class N_LEN\<close>: note values, weighted in 64ths of a whole note.\<close>

datatype N_LEN =
  N64 | N32 | N32d | N16 | N16d | N8 | N8d | N4 | N4d | N2 | N2d | N1 | N1d

fun N_LEN_int :: "N_LEN \<Rightarrow> int" where
  "N_LEN_int N64 = 1"
| "N_LEN_int N32 = 2"
| "N_LEN_int N32d = 3"
| "N_LEN_int N16 = 4"
| "N_LEN_int N16d = 6"
| "N_LEN_int N8 = 8"
| "N_LEN_int N8d = 12"
| "N_LEN_int N4 = 16"
| "N_LEN_int N4d = 24"
| "N_LEN_int N2 = 32"
| "N_LEN_int N2d = 48"
| "N_LEN_int N1 = 64"
| "N_LEN_int N1d = 96"

definition N4_LEN :: u32 where
  "N4_LEN = 16"

text \<open>
  \<open>typedef struct { note_t note; uint8_t octave; N_LEN value; } musicNote\<close>. The fields
  carry the prefix \<open>mn_\<close> because \<open>note\<close> and \<open>value\<close> are Isabelle keywords.
\<close>

record musicNote =
  mn_note :: note_t
  mn_octave :: u8
  mn_value :: N_LEN

text \<open>
  The private members of \<open>class MelodyPlayer\<close>, without the leading underscore.
  \<open>tempo\<close> has the type \<open>TEMPO\<close> in the source, but \<open>setTempo(int)\<close> casts any
  \<open>int\<close> into it, so the field holds an arbitrary 32-bit value. \<open>noteCounter\<close> and
  \<open>melodyLength\<close> are C++ \<open>int\<close>s that are only compared, reset to 0 and incremented
  below a bound, so no arithmetic on them can overflow; they are modelled as \<open>int\<close>.
  \<open>melody\<close> is \<open>None\<close> for the null pointer.
\<close>

record player =
  pin :: u8
  channel :: u8
  volume :: u32
  msStart :: u32
  msNoteGap :: u32
  msPrevious :: u32
  noteCounter :: int
  started :: bool
  notePlayed :: bool
  random_flag :: bool
  melodyLength :: int
  tempo :: i32
  melody :: "musicNote list option"

text \<open>
  What the player does to its environment, in the order of the calls: the four functions
  of the ledc PWM driver, and the blocking \<open>delay\<close>.
\<close>

datatype hw_cmd =
  LedcSetup u8 nat u8
| LedcAttachPin u8 u8
| LedcWriteNote u8 note_t u8
| LedcWrite u8 u32
| Delay u32

text \<open>
  The tone-capability commands are the calls that set the frequency
  (\<open>ledcWriteNote\<close>) and the duty cycle (\<open>ledcWrite\<close>).
\<close>

fun is_tone_cmd :: "hw_cmd \<Rightarrow> bool" where
  "is_tone_cmd (LedcWriteNote c n ov) = True"
| "is_tone_cmd (LedcWrite c d) = True"
| "is_tone_cmd _ = False"

fun is_start_tone :: "hw_cmd \<Rightarrow> bool" where
  "is_start_tone (LedcWriteNote c n ov) = True"
| "is_start_tone _ = False"

text \<open>A duty-cycle command with a duty other than 0.\<close>

fun is_nonzero_amplitude :: "hw_cmd \<Rightarrow> bool" where
  "is_nonzero_amplitude (LedcWrite c d) = (d \<noteq> 0)"
| "is_nonzero_amplitude _ = False"

text \<open>
  \<open>ledcWriteNote\<close> belongs to the Arduino core. Its return value (the frequency that was
  set, 0 for none) is a parameter of the model: a function of channel, note and octave.
\<close>

type_synonym tone_hw = "u8 \<Rightarrow> note_t \<Rightarrow> u8 \<Rightarrow> u32"

text \<open>
  A poll ends in one of two ways the source does not return from: an unsigned division by
  \<open>(uint32_t)_tempo = 0\<close>, and a read of \<open>m[i]\<close> outside the melody array.
\<close>

datatype error = DivideByZero | IndexOutOfRange

section \<open>The constructor and the setters\<close>

text \<open>
  The constructor of \<open>MelodyPlayer.h\<close> with the default member initialisers.
  \<open>_melodyLength\<close> has no initialiser; the one instance of the class is a global object,
  which is zero-initialised before its constructor runs.
\<close>

definition MelodyPlayer :: "u8 \<Rightarrow> u8 \<Rightarrow> player \<times> hw_cmd list" where
  "MelodyPlayer pn ch =
     (\<lparr>pin = pn, channel = ch, volume = 0, msStart = 0, msNoteGap = 10, msPrevious = 0,
       noteCounter = 0, started = False, notePlayed = False, random_flag = False,
       melodyLength = 0, tempo = word_of_int (TEMPO_int MODERATO), melody = None\<rparr>,
      [LedcSetup ch 20000 8, LedcAttachPin pn ch, LedcWrite ch 0])"

definition setVolume :: "player \<Rightarrow> u32 \<Rightarrow> player" where
  "setVolume p v = p\<lparr>volume := v\<rparr>"

text \<open>\<open>setTempo(TEMPO tempo)\<close>\<close>

definition setTempo_preset :: "player \<Rightarrow> TEMPO \<Rightarrow> player" where
  "setTempo_preset p t = p\<lparr>tempo := word_of_int (TEMPO_int t)\<rparr>"

definition setLegato :: "player \<Rightarrow> u32 \<Rightarrow> player" where
  "setLegato p gap = p\<lparr>msNoteGap := (if gap \<le> 100 then gap else 100)\<rparr>"

text \<open>\<open>setTempo(int nBeats)\<close>\<close>

definition setTempo :: "player \<Rightarrow> i32 \<Rightarrow> player" where
  "setTempo p nBeats = p\<lparr>tempo := nBeats\<rparr>"

definition setMelody :: "player \<Rightarrow> musicNote list \<Rightarrow> int \<Rightarrow> player" where
  "setMelody p m len = p\<lparr>melody := Some m, melodyLength := len\<rparr>"

definition mute :: "player \<Rightarrow> hw_cmd list" where
  "mute p = [LedcWrite (channel p) 0]"

definition setNormalMode :: "player \<Rightarrow> player" where
  "setNormalMode p = p\<lparr>random_flag := False\<rparr>"

definition setRandomMode :: "player \<Rightarrow> player" where
  "setRandomMode p = p\<lparr>random_flag := True\<rparr>"

section \<open>The note player\<close>

text \<open>\<open>millis() - _msStart\<close>, on \<open>uint32_t\<close>.\<close>

definition elapsed :: "u32 \<Rightarrow> u32 \<Rightarrow> u32" where
  "elapsed now start = now - start"

text \<open>
  The right-hand side of the comparison in \<open>playNote\<close>:
  \<open>60000 * (uint32_t)n.value / N4_LEN / (uint32_t)_tempo\<close>, all in \<open>uint32_t\<close>.
  It is evaluated only where the divisor is not 0 (see \<open>playNote\<close>).
\<close>

definition noteDuration :: "N_LEN \<Rightarrow> i32 \<Rightarrow> u32" where
  "noteDuration v t = 60000 * word_of_int (N_LEN_int v) div N4_LEN div t"

text \<open>
  \<open>playNote(musicNote n)\<close>. \<open>now\<close> is the value of the one call of \<open>millis()\<close> that the
  path taken makes.
\<close>

definition playNote :: "tone_hw \<Rightarrow> player \<Rightarrow> musicNote \<Rightarrow> u32 \<Rightarrow> error + player \<times> hw_cmd list" where
  "playNote hw p n now =
     (if notePlayed p then Inr (p, [])
      else if \<not> started p then
        Inr (p\<lparr>msStart := now, started := True\<rparr>,
             [LedcWriteNote (channel p) (mn_note n) (mn_octave n),
              if hw (channel p) (mn_note n) (mn_octave n) \<noteq> 0
              then LedcWrite (channel p) (volume p)
              else LedcWrite (channel p) 0])
      else if tempo p = 0 then Inl DivideByZero
      else if elapsed now (msStart p) > noteDuration (mn_value n) (tempo p) then
        Inr (p\<lparr>started := False, notePlayed := True\<rparr>,
             [LedcWrite (channel p) 0, Delay (msNoteGap p)])
      else Inr (p, []))"

section \<open>The melody sequencer\<close>

text \<open>\<open>m[i]\<close> for a C++ \<open>int\<close> index: defined inside the array only.\<close>

definition index_note :: "musicNote list \<Rightarrow> int \<Rightarrow> error + musicNote" where
  "index_note m i =
     (if 0 \<le> i \<and> i < int (length m) then Inr (m ! nat i) else Inl IndexOutOfRange)"

text \<open>
  \<open>random\<close> belongs to the Arduino core. It is a parameter of the model: \<open>rnd\<close> is the
  generator as it stands at the poll, a function from the argument of the call to the
  value the call returns.
\<close>

type_synonym random_fn = "int \<Rightarrow> int"

text \<open>
  The index of the note that \<open>playMelody\<close> hands to \<open>playNote\<close>: \<open>_noteCounter\<close> in
  normal mode, \<open>random(len)\<close> in random mode. The generator is called in random mode
  only, and with \<open>len\<close>.
\<close>

definition note_index :: "player \<Rightarrow> int \<Rightarrow> random_fn \<Rightarrow> int" where
  "note_index p len rnd = (if \<not> random_flag p then noteCounter p else rnd len)"

text \<open>\<open>playMelody(musicNote m[], int len, bool repeat)\<close>\<close>

definition playMelody ::
  "tone_hw \<Rightarrow> player \<Rightarrow> musicNote list \<Rightarrow> int \<Rightarrow> bool \<Rightarrow> u32 \<Rightarrow> random_fn
     \<Rightarrow> error + player \<times> hw_cmd list" where
  "playMelody hw p m len repeat now rnd =
     (let p0 = p\<lparr>notePlayed := False\<rparr> in
      if noteCounter p0 \<ge> len then
        Inr (if repeat then p0\<lparr>noteCounter := 0\<rparr> else p0, [])
      else
        case index_note m (note_index p0 len rnd) of
          Inl e \<Rightarrow> Inl e
        | Inr n \<Rightarrow>
            (case playNote hw p0 n now of
               Inl e \<Rightarrow> Inl e
             | Inr (p1, cmds) \<Rightarrow>
                 Inr (if notePlayed p1 then p1\<lparr>noteCounter := noteCounter p1 + 1\<rparr> else p1,
                      cmds)))"

text \<open>\<open>playMelody(bool repeat)\<close>, on the melody stored by \<open>setMelody\<close>.\<close>

definition playMelody_stored ::
  "tone_hw \<Rightarrow> player \<Rightarrow> bool \<Rightarrow> u32 \<Rightarrow> random_fn \<Rightarrow> error + player \<times> hw_cmd list" where
  "playMelody_stored hw p repeat now rnd =
     (case melody p of
        None \<Rightarrow> Inr (p, [])
      | Some m \<Rightarrow> playMelody hw p m (melodyLength p) repeat now rnd)"

section \<open>The metronome\<close>

text \<open>
  \<open>playBeats()\<close>. The source calls \<open>millis()\<close> up to three times: \<open>t0\<close> is the value
  stored in \<open>_msStart\<close> (read only when the beat is triggered), \<open>t1\<close> the one compared
  with 4 ms and \<open>t2\<close> the one compared with the beat interval. The trigger block does not
  return, so both comparisons follow it in the same call. A division by zero ends the call;
  the error result does not list the commands issued before it.
\<close>

definition playBeats :: "player \<Rightarrow> u32 \<Rightarrow> u32 \<Rightarrow> u32 \<Rightarrow> error + player \<times> hw_cmd list" where
  "playBeats p t0 t1 t2 =
     (let p1 = (if \<not> started p then p\<lparr>started := True, msStart := t0\<rparr> else p);
          c1 = (if \<not> started p
                then [LedcWriteNote 0 NOTE_A 7, LedcWrite (channel p) (volume p)] else []);
          c2 = (if elapsed t1 (msStart p1) > 4 then mute p1 else [])
      in if tempo p1 = 0 then Inl DivideByZero
         else Inr (if elapsed t2 (msStart p1) > 60000 div tempo p1
                   then p1\<lparr>started := False\<rparr> else p1,
                   c1 @ c2))"

text \<open>
  \<open>rearmNoteAfter(uint32_t msWait)\<close>: \<open>now1\<close> is the clock value compared, \<open>now2\<close> the
  one stored.
\<close>

definition rearmNoteAfter :: "player \<Rightarrow> u32 \<Rightarrow> u32 \<Rightarrow> u32 \<Rightarrow> player" where
  "rearmNoteAfter p msWait now1 now2 =
     (if elapsed now1 (msPrevious p) \<ge> msWait
      then p\<lparr>msPrevious := now2, notePlayed := False\<rparr> else p)"

section \<open>Runs of polls and sample inputs\<close>

text \<open>The main loop calling \<open>playNote\<close> on one note, once for each clock value.\<close>

fun playNote_polls ::
  "tone_hw \<Rightarrow> player \<Rightarrow> musicNote \<Rightarrow> u32 list \<Rightarrow> error + player \<times> hw_cmd list" where
  "playNote_polls hw p n [] = Inr (p, [])"
| "playNote_polls hw p n (now # rest) =
     (case playNote hw p n now of
        Inl e \<Rightarrow> Inl e
      | Inr (p1, c1) \<Rightarrow>
          (case playNote_polls hw p1 n rest of
             Inl e \<Rightarrow> Inl e
           | Inr (p2, c2) \<Rightarrow> Inr (p2, c1 @ c2)))"

text \<open>
  The main loop calling \<open>playMelody\<close> once for each pair of a clock value and a state
  of the generator; the result lists the state of the player after each poll.
\<close>

fun playMelody_polls ::
  "tone_hw \<Rightarrow> musicNote list \<Rightarrow> int \<Rightarrow> bool \<Rightarrow> player \<Rightarrow> (u32 \<times> random_fn) list
     \<Rightarrow> error + player list" where
  "playMelody_polls hw m len repeat p [] = Inr []"
| "playMelody_polls hw m len repeat p ((now, rnd) # rest) =
     (case playMelody hw p m len repeat now rnd of
        Inl e \<Rightarrow> Inl e
      | Inr (p1, c1) \<Rightarrow>
          (case playMelody_polls hw m len repeat p1 rest of
             Inl e \<Rightarrow> Inl e
           | Inr ps \<Rightarrow> Inr (p1 # ps)))"

text \<open>
  The main loop calling \<open>playBeats\<close> once at each of the given times, in milliseconds
  since the start of the clock. A poll is taken to read one clock value in all its calls of
  \<open>millis()\<close>: the time reduced to 32 bits. The result is the final state and, for each
  poll, its time and the commands it issued.
\<close>

fun playBeats_polls :: "player \<Rightarrow> nat list \<Rightarrow> error + player \<times> (nat \<times> hw_cmd list) list" where
  "playBeats_polls p [] = Inr (p, [])"
| "playBeats_polls p (ms # rest) =
     (case playBeats p (of_nat ms) (of_nat ms) (of_nat ms) of
        Inl e \<Rightarrow> Inl e
      | Inr (p1, c1) \<Rightarrow>
          (case playBeats_polls p1 rest of
             Inl e \<Rightarrow> Inl e
           | Inr (p2, log) \<Rightarrow> Inr (p2, (ms, c1) # log)))"

text \<open>The times of the polls that issued a frequency command: the start edges of the clicks.\<close>

definition click_starts :: "(nat \<times> hw_cmd list) list \<Rightarrow> nat list" where
  "click_starts log = map fst (filter (\<lambda>e. list_ex is_start_tone (snd e)) log)"

text \<open>The beat interval \<open>60000 / (uint32_t)_tempo\<close> of \<open>playBeats\<close>, as a number.\<close>

definition beat_interval :: "player \<Rightarrow> nat" where
  "beat_interval p = unat (60000 div tempo p)"

text \<open>
  What a poll at the time \<open>x\<close> logs while the beat started at the time \<open>s\<close> is on:
  the silence command once more than 4 ms have passed, nothing before.
\<close>

definition poll_log :: "player \<Rightarrow> nat \<Rightarrow> nat \<Rightarrow> nat \<times> hw_cmd list" where
  "poll_log p s x = (x, if 4 < x - s then [LedcWrite (channel p) 0] else [])"

text \<open>The PWM channel that a command addresses.\<close>

fun cmd_channel :: "hw_cmd \<Rightarrow> u8 option" where
  "cmd_channel (LedcSetup c f r) = Some c"
| "cmd_channel (LedcAttachPin pn c) = Some c"
| "cmd_channel (LedcWriteNote c n ov) = Some c"
| "cmd_channel (LedcWrite c d) = Some c"
| "cmd_channel (Delay ms) = None"

text \<open>
  A tone generator for the examples: no frequency for a \<open>REST\<close>, 440 for any other
  note.
\<close>

definition sample_hw :: tone_hw where
  "sample_hw ch n ov = (if n = REST then 0 else 440)"

text \<open>
  A generator for the examples, one for each raw number \<open>w\<close>: called with \<open>n > 0\<close> it
  returns \<open>w mod n\<close>.
\<close>

definition sample_random :: "nat \<Rightarrow> random_fn" where
  "sample_random w n = (if n = 0 then 0 else int w mod n)"

text \<open>
  The player of \<open>src/melodyPlayer.cpp\<close> (pin 25, channel 0) with the volume that its
  metronome menu entry sets, and the same player on channel 2.
\<close>

definition demo_player :: player where
  "demo_player = setVolume (fst (MelodyPlayer 25 0)) 100"

definition channel2_player :: player where
  "channel2_player = setVolume (fst (MelodyPlayer 25 2)) 100"

text \<open>A note that has been sounding since the clock value \<open>2^32 - 10\<close>.\<close>

definition late_player :: player where
  "late_player = demo_player\<lparr>started := True, msStart := 4294967286\<rparr>"

text \<open>The demo player at the tempo \<open>t\<close>.\<close>

definition beat_player :: "i32 \<Rightarrow> player" where
  "beat_player t = setTempo demo_player t"

definition demo_note :: musicNote where
  "demo_note = \<lparr>mn_note = NOTE_A, mn_octave = 4, mn_value = N4\<rparr>"

definition demo_rest :: musicNote where
  "demo_rest = \<lparr>mn_note = REST, mn_octave = 4, mn_value = N4\<rparr>"

text \<open>A melody of two notes and a run of five polls that plays it to the end.\<close>

definition two_notes :: "musicNote list" where
  "two_notes = [demo_note, demo_rest]"

definition two_notes_polls :: "(u32 \<times> random_fn) list" where
  "two_notes_polls =
     [(1000, sample_random 0), (1527, sample_random 0), (1540, sample_random 0),
      (2067, sample_random 0), (2080, sample_random 0)]"

definition two_notes_states :: "player list" where
  "two_notes_states =
     [demo_player\<lparr>msStart := 1000, started := True\<rparr>,
      demo_player\<lparr>msStart := 1000, notePlayed := True, noteCounter := 1\<rparr>,
      demo_player\<lparr>msStart := 1540, started := True, noteCounter := 1\<rparr>,
      demo_player\<lparr>msStart := 1540, notePlayed := True, noteCounter := 2\<rparr>,
      demo_player\<lparr>msStart := 1540, noteCounter := 2\<rparr>]"

definition two_notes_done :: player where
  "two_notes_done = demo_player\<lparr>msStart := 1540, notePlayed := True, noteCounter := 2\<rparr>"

section \<open>The duration of a note\<close>

lemma unat_scaled_N_LEN:
  "unat (60000 * word_of_int (N_LEN_int v) :: u32) = nat (60000 * N_LEN_int v)"
  by (cases v) simp_all

lemma sint_nonneg_uint: "0 \<le> sint (t :: i32) \<Longrightarrow> sint t = uint t"
proof -
  assume a: "0 \<le> sint t"
  have nb: "\<not> bit (uint t) 31"
    using a bit_last_iff [of t] by (simp add: bit_uint_iff)
  have "sint t = take_bit 31 (uint t)"
    using nb by (simp add: sint_uint signed_take_bit_eq_if_positive)
  moreover have "take_bit 32 (uint t) = uint t"
    using uint_lt2p [of t] by (simp add: take_bit_int_eq_self_iff)
  moreover have "take_bit 32 (uint t) = take_bit 31 (uint t)"
    using nb take_bit_Suc_from_most [of 31 "uint t"] by simp
  ultimately show ?thesis by simp
qed

lemma unat_positive_i32: "0 < sint (t :: i32) \<Longrightarrow> unat t = nat (sint t)"
  using sint_nonneg_uint [of t] by simp

text \<open>
  Claim C2. For every note value \<open>d\<close> and every tempo \<open>t > 0\<close>, the note duration that
  \<open>playNote\<close> compares the elapsed time with is \<open>60000 * d / 16 / t\<close>, each division
  truncating, from left to right; for a quarter note (16) at tempo 114 it is 526 ms.
\<close>

theorem noteDuration_value:
  "0 < sint t \<Longrightarrow>
     unat (noteDuration d t) = nat (60000 * N_LEN_int d) div 16 div nat (sint t)
     \<and> noteDuration N4 114 = 526"
proof
  assume pos: "0 < sint t"
  show "unat (noteDuration d t) = nat (60000 * N_LEN_int d) div 16 div nat (sint t)"
    unfolding noteDuration_def N4_LEN_def
    by (simp only: unat_div unat_scaled_N_LEN unat_positive_i32 [OF pos]) simp
  show "noteDuration N4 114 = 526"
    by (simp add: noteDuration_def N4_LEN_def)
qed

theorem noteDuration_value_witness:
  "0 < sint (114 :: i32) \<and> unat (noteDuration N4 114) = 526
   \<and> nat (60000 * N_LEN_int N4) div 16 div nat (sint (114 :: i32)) = 526"
  using noteDuration_value [of 114 N4] by simp

section \<open>Setting the tempo\<close>

text \<open>No poll changes the tempo, and a poll divides by zero only when the tempo is 0.\<close>

lemma playNote_tempo: "playNote hw p n now = Inr (p', cmds) \<Longrightarrow> tempo p' = tempo p"
  by (auto simp: playNote_def split: if_splits)

lemma playNote_no_div: "tempo p \<noteq> 0 \<Longrightarrow> playNote hw p n now \<noteq> Inl DivideByZero"
  by (simp add: playNote_def)

lemma playMelody_tempo: "playMelody hw p m len rep now rnd = Inr (p', cmds) \<Longrightarrow> tempo p' = tempo p"
  by (auto simp: playMelody_def Let_def playNote_def index_note_def note_index_def
      split: if_splits sum.splits)

lemma playMelody_no_div: "tempo p \<noteq> 0 \<Longrightarrow> playMelody hw p m len rep now rnd \<noteq> Inl DivideByZero"
  by (auto simp: playMelody_def Let_def playNote_def index_note_def note_index_def
      split: if_splits sum.splits)

lemma playBeats_tempo: "playBeats p t0 t1 t2 = Inr (p', cmds) \<Longrightarrow> tempo p' = tempo p"
  by (auto simp: playBeats_def Let_def split: if_splits)

lemma playBeats_no_div: "tempo p \<noteq> 0 \<Longrightarrow> playBeats p t0 t1 t2 \<noteq> Inl DivideByZero"
  by (simp add: playBeats_def Let_def)

text \<open>
  Claim C1, as stated, fails: \<open>setTempo(int)\<close> has no guard. With the tempo 114 in
  effect, \<open>setTempo(0)\<close> stores 0 and \<open>setTempo(-5)\<close> stores -5; after
  \<open>setTempo(0)\<close> the next metronome poll divides by zero, and so does the next poll of
  a sounding note.
\<close>

theorem setTempo_nonpositive_counterexample:
  "sint (0 :: i32) \<le> 0 \<and> sint (- 5 :: i32) \<le> 0
   \<and> tempo demo_player = 114
   \<and> tempo (setTempo demo_player 0) = 0
   \<and> tempo (setTempo demo_player (- 5)) = - 5
   \<and> playBeats (setTempo demo_player 0) 0 0 0 = Inl DivideByZero
   \<and> playNote sample_hw ((setTempo demo_player 0)\<lparr>started := True\<rparr>) demo_note 1 = Inl DivideByZero"
  by (simp add: demo_player_def MelodyPlayer_def setVolume_def setTempo_def playBeats_def
      playNote_def Let_def)

text \<open>
  Claim C1, amended. For every \<open>int\<close> \<open>b\<close>, positive or not, \<open>setTempo(b)\<close>
  stores \<open>b\<close> as the tempo: nothing is rejected and the previous tempo is not retained.
  For \<open>b \<noteq> 0\<close> no poll of the note player, the melody sequencer or the metronome at that
  tempo divides by zero, and the polls leave the tempo as it was set.
\<close>

theorem setTempo_stores:
  "tempo (setTempo p b) = b
   \<and> (b \<noteq> 0 \<longrightarrow>
        playNote hw (setTempo p b) n now \<noteq> Inl DivideByZero
      \<and> playMelody hw (setTempo p b) m len rep now rnd \<noteq> Inl DivideByZero
      \<and> playBeats (setTempo p b) t0 t1 t2 \<noteq> Inl DivideByZero
      \<and> (\<forall>p' cmds. playMelody hw (setTempo p b) m len rep now rnd = Inr (p', cmds)
            \<longrightarrow> tempo p' = b)
      \<and> (\<forall>p' cmds. playBeats (setTempo p b) t0 t1 t2 = Inr (p', cmds) \<longrightarrow> tempo p' = b))"
proof -
  have st: "tempo (setTempo p b) = b"
    by (simp add: setTempo_def)
  show ?thesis
    using st playNote_no_div [of "setTempo p b" hw n now]
      playMelody_no_div [of "setTempo p b" hw m len rep now rnd]
      playBeats_no_div [of "setTempo p b" t0 t1 t2]
      playMelody_tempo [of hw "setTempo p b" m len rep now rnd]
      playBeats_tempo [of "setTempo p b" t0 t1 t2]
    by auto
qed

theorem setTempo_stores_witness:
  "tempo (setTempo demo_player (- 5)) = - 5
   \<and> (- 5 :: i32) \<noteq> 0
   \<and> playBeats (setTempo demo_player (- 5)) 0 0 0 \<noteq> Inl DivideByZero
   \<and> playBeats (setTempo demo_player (- 5)) 0 0 0 =
        Inr ((setTempo demo_player (- 5))\<lparr>started := True, msStart := 0\<rparr>,
             [LedcWriteNote 0 NOTE_A 7, LedcWrite 0 100])"
  using setTempo_stores [of demo_player "- 5" sample_hw demo_note 0 "[demo_note]" 1 False "sample_random 0" 0 0 0]
  by (simp add: demo_player_def MelodyPlayer_def setVolume_def setTempo_def playBeats_def
      Let_def elapsed_def)

section \<open>A poll of a sounding note\<close>

text \<open>
  Claim C3, as stated, fails where the elapsed time equals the note duration: the source
  compares with \<open>>\<close>. A quarter note at tempo 114 lasts 526 ms; the poll 526 ms after
  the start issues no command and does not report the note as played.
\<close>

theorem playNote_boundary_counterexample:
  "started (demo_player\<lparr>started := True, msStart := 1000\<rparr>)
   \<and> noteDuration (mn_value demo_note) (tempo demo_player) = 526
   \<and> elapsed 1526 1000 = 526
   \<and> elapsed 1526 1000 \<ge> noteDuration (mn_value demo_note) (tempo demo_player)
   \<and> playNote sample_hw (demo_player\<lparr>started := True, msStart := 1000\<rparr>) demo_note 1526
       = Inr (demo_player\<lparr>started := True, msStart := 1000\<rparr>, [])
   \<and> \<not> notePlayed (demo_player\<lparr>started := True, msStart := 1000\<rparr>)"
  by (simp add: demo_player_def demo_note_def MelodyPlayer_def setVolume_def playNote_def
      noteDuration_def N4_LEN_def elapsed_def)

text \<open>
  Claim C3, amended. On a poll of a sounding note at a tempo other than 0, with
  \<open>elapsed = now - startTime\<close> and \<open>target\<close> the note duration: if
  \<open>elapsed \<le> target\<close> the poll issues no command, changes nothing and does not report
  the note as played; if \<open>elapsed > target\<close> it issues exactly one silence command, then
  pauses for the legato gap, clears the started flag and reports the note as played.
\<close>

theorem playNote_sounding:
  "started p \<Longrightarrow> \<not> notePlayed p \<Longrightarrow> tempo p \<noteq> 0 \<Longrightarrow>
   (elapsed now (msStart p) \<le> noteDuration (mn_value n) (tempo p) \<longrightarrow>
      playNote hw p n now = Inr (p, []))
   \<and> (elapsed now (msStart p) > noteDuration (mn_value n) (tempo p) \<longrightarrow>
      (\<exists>p' cmds. playNote hw p n now = Inr (p', cmds)
         \<and> filter is_tone_cmd cmds = [LedcWrite (channel p) 0]
         \<and> cmds = [LedcWrite (channel p) 0, Delay (msNoteGap p)]
         \<and> \<not> started p' \<and> notePlayed p'
         \<and> p' = p\<lparr>started := False, notePlayed := True\<rparr>))"
  by (auto simp: playNote_def)

theorem playNote_sounding_witness:
  "playNote sample_hw (demo_player\<lparr>started := True, msStart := 1000\<rparr>) demo_note 1526
     = Inr (demo_player\<lparr>started := True, msStart := 1000\<rparr>, [])
   \<and> playNote sample_hw (demo_player\<lparr>started := True, msStart := 1000\<rparr>) demo_note 1527
     = Inr (demo_player\<lparr>started := False, msStart := 1000, notePlayed := True\<rparr>,
            [LedcWrite 0 0, Delay 10])"
proof -
  let ?p = "demo_player\<lparr>started := True, msStart := 1000\<rparr>"
  have h: "started ?p" "\<not> notePlayed ?p" "tempo ?p \<noteq> 0"
    by (simp_all add: demo_player_def MelodyPlayer_def setVolume_def)
  have d: "noteDuration (mn_value demo_note) (tempo ?p) = 526"
    by (simp add: demo_player_def demo_note_def MelodyPlayer_def setVolume_def
        noteDuration_def N4_LEN_def)
  have e: "elapsed 1526 (msStart ?p) = 526" "elapsed 1527 (msStart ?p) = 527"
    by (simp_all add: elapsed_def)
  have c: "channel ?p = 0" "msNoteGap ?p = 10"
    by (simp_all add: demo_player_def MelodyPlayer_def setVolume_def)
  show ?thesis
    using playNote_sounding [OF h, of 1526 demo_note sample_hw]
      playNote_sounding [OF h, of 1527 demo_note sample_hw]
    unfolding d e c by auto
qed

section \<open>Rests\<close>

lemma playNote_rest_quiet:
  "\<forall>ch ov. hw ch REST ov = 0 \<Longrightarrow> mn_note n = REST \<Longrightarrow>
   playNote hw p n now = Inr (p', cmds) \<Longrightarrow> \<forall>c \<in> set cmds. \<not> is_nonzero_amplitude c"
  by (auto simp: playNote_def split: if_splits)

lemma playNote_polls_rest_quiet:
  "\<forall>ch ov. hw ch REST ov = 0 \<Longrightarrow> mn_note n = REST \<Longrightarrow>
   playNote_polls hw p n nows = Inr (p', cmds) \<Longrightarrow> \<forall>c \<in> set cmds. \<not> is_nonzero_amplitude c"
proof (induction nows arbitrary: p cmds)
  case Nil
  then show ?case by simp
next
  case (Cons now rest)
  from Cons.prems(3) obtain p1 c1 c2 where
    first: "playNote hw p n now = Inr (p1, c1)" and
    later: "playNote_polls hw p1 n rest = Inr (p', c2)" and
    cmds: "cmds = c1 @ c2"
    by (auto split: sum.splits)
  have "\<forall>c \<in> set c1. \<not> is_nonzero_amplitude c"
    using playNote_rest_quiet [of hw n p now p1 c1] Cons.prems(1,2) first by blast
  moreover have "\<forall>c \<in> set c2. \<not> is_nonzero_amplitude c"
    using Cons.IH [of p1 c2] Cons.prems(1,2) later by blast
  ultimately show ?case
    using cmds by auto
qed

lemma demo_rest_run:
  "playNote_polls sample_hw demo_player demo_rest [1000, 1200, 1526, 1527] =
     Inr (demo_player\<lparr>msStart := 1000, notePlayed := True\<rparr>,
          [LedcWriteNote 0 REST 4, LedcWrite 0 0, LedcWrite 0 0, Delay 10])"
  by (simp add: demo_player_def demo_rest_def MelodyPlayer_def setVolume_def playNote_def
      sample_hw_def noteDuration_def N4_LEN_def elapsed_def)

text \<open>
  Claim C6. Let \<open>ledcWriteNote\<close> return 0 for a \<open>REST\<close>, and let the note be a
  \<open>REST\<close>. Then no run of polls of \<open>playNote\<close> on that note, from any state of the
  player and whatever the volume, issues a duty-cycle command with a duty other than 0;
  and the poll that starts the note issues the frequency command followed by the duty 0.
\<close>

theorem rest_never_sounds:
  assumes contract: "\<forall>ch ov. hw ch REST ov = 0" and rest: "mn_note n = REST"
  shows "(playNote_polls hw p n nows = Inr (p', cmds) \<longrightarrow>
            (\<forall>c \<in> set cmds. \<not> is_nonzero_amplitude c))
         \<and> (\<not> notePlayed p \<and> \<not> started p \<longrightarrow>
            playNote hw p n now =
              Inr (p\<lparr>msStart := now, started := True\<rparr>,
                   [LedcWriteNote (channel p) REST (mn_octave n), LedcWrite (channel p) 0]))"
proof
  show "playNote_polls hw p n nows = Inr (p', cmds) \<longrightarrow>
          (\<forall>c \<in> set cmds. \<not> is_nonzero_amplitude c)"
    using playNote_polls_rest_quiet [of hw n p nows p' cmds] contract rest by blast
  show "\<not> notePlayed p \<and> \<not> started p \<longrightarrow>
          playNote hw p n now =
            Inr (p\<lparr>msStart := now, started := True\<rparr>,
                 [LedcWriteNote (channel p) REST (mn_octave n), LedcWrite (channel p) 0])"
    using contract rest by (simp add: playNote_def)
qed

theorem rest_never_sounds_witness:
  "(\<forall>ch ov. sample_hw ch REST ov = 0) \<and> mn_note demo_rest = REST \<and> volume demo_player = 100
   \<and> playNote_polls sample_hw demo_player demo_rest [1000, 1200, 1526, 1527] =
        Inr (demo_player\<lparr>msStart := 1000, notePlayed := True\<rparr>,
             [LedcWriteNote 0 REST 4, LedcWrite 0 0, LedcWrite 0 0, Delay 10])
   \<and> filter is_nonzero_amplitude
         [LedcWriteNote 0 REST 4, LedcWrite 0 0, LedcWrite 0 0, Delay 10] = []
   \<and> playNote sample_hw demo_player demo_rest 1000 =
        Inr (demo_player\<lparr>msStart := 1000, started := True\<rparr>,
             [LedcWriteNote 0 REST 4, LedcWrite 0 0])"
proof -
  have contract: "\<forall>ch ov. sample_hw ch REST ov = 0"
    by (simp add: sample_hw_def)
  have rest: "mn_note demo_rest = REST"
    by (simp add: demo_rest_def)
  have idle: "\<not> notePlayed demo_player \<and> \<not> started demo_player" "volume demo_player = 100"
    "channel demo_player = 0" "mn_octave demo_rest = 4"
    by (simp_all add: demo_player_def demo_rest_def MelodyPlayer_def setVolume_def)
  show ?thesis
    using rest_never_sounds [of sample_hw demo_rest demo_player "[1000, 1200, 1526, 1527]"
        "demo_player\<lparr>msStart := 1000, notePlayed := True\<rparr>"
        "[LedcWriteNote 0 REST 4, LedcWrite 0 0, LedcWrite 0 0, Delay 10]" 1000]
      demo_rest_run contract rest idle
    by simp
qed

section \<open>Elapsed time across the rollover of the clock\<close>

lemma elapsed_of_nat: "e < 2 ^ 32 \<Longrightarrow> unat (elapsed (of_nat (T + e)) (of_nat T)) = e"
  by (simp add: elapsed_def unat_of_nat take_bit_nat_eq_self)

lemma polls_by_elapsed:
  assumes el: "unat (elapsed now st) = e"
  shows "(started p \<and> \<not> notePlayed p \<and> tempo p \<noteq> 0 \<and> msStart p = st \<longrightarrow>
         playNote hw p n now =
           (if unat (noteDuration (mn_value n) (tempo p)) < e
            then Inr (p\<lparr>started := False, notePlayed := True\<rparr>,
                      [LedcWrite (channel p) 0, Delay (msNoteGap p)])
            else Inr (p, [])))
    \<and> (started p \<and> tempo p \<noteq> 0 \<and> msStart p = st \<longrightarrow>
         playBeats p t0 now now =
           Inr (if unat (60000 div tempo p) < e then p\<lparr>started := False\<rparr> else p,
                if 4 < e then [LedcWrite (channel p) 0] else []))
    \<and> (msPrevious p = st \<longrightarrow>
         rearmNoteAfter p w now now2 =
           (if unat w \<le> e then p\<lparr>msPrevious := now2, notePlayed := False\<rparr> else p))"
proof -
  have lt: "\<And>d :: u32. d < elapsed now st \<longleftrightarrow> unat d < e"
    by (simp add: word_less_nat_alt el)
  have le: "\<And>d :: u32. d \<le> elapsed now st \<longleftrightarrow> unat d \<le> e"
    by (simp add: word_le_nat_alt el)
  have four: "(4 :: u32) < elapsed now st \<longleftrightarrow> 4 < e"
    using lt [of 4] by simp
  show ?thesis
    by (simp add: playNote_def playBeats_def rearmNoteAfter_def Let_def mute_def lt le four)
qed

text \<open>
  Claim C8. The elapsed time is the \<open>uint32_t\<close> difference \<open>now - start\<close>. When the
  start is read at the true time \<open>T\<close> and \<open>now\<close> at the true time \<open>T + e\<close> with
  \<open>e < 2^32\<close>, both reduced modulo \<open>2^32\<close> by the counter, the difference is \<open>e\<close>,
  also when the counter wraps in between; so \<open>playNote\<close>, \<open>playBeats\<close> and
  \<open>rearmNoteAfter\<close> decide by the true elapsed time \<open>e\<close>.
\<close>

theorem elapsed_wraparound:
  assumes "e < 2 ^ 32"
  shows "unat (elapsed (of_nat (T + e)) (of_nat T)) = e
    \<and> (started p \<and> \<not> notePlayed p \<and> tempo p \<noteq> 0 \<and> msStart p = of_nat T \<longrightarrow>
         playNote hw p n (of_nat (T + e)) =
           (if unat (noteDuration (mn_value n) (tempo p)) < e
            then Inr (p\<lparr>started := False, notePlayed := True\<rparr>,
                      [LedcWrite (channel p) 0, Delay (msNoteGap p)])
            else Inr (p, [])))
    \<and> (started p \<and> tempo p \<noteq> 0 \<and> msStart p = of_nat T \<longrightarrow>
         playBeats p t0 (of_nat (T + e)) (of_nat (T + e)) =
           Inr (if unat (60000 div tempo p) < e then p\<lparr>started := False\<rparr> else p,
                if 4 < e then [LedcWrite (channel p) 0] else []))
    \<and> (msPrevious p = of_nat T \<longrightarrow>
         rearmNoteAfter p w (of_nat (T + e)) now2 =
           (if unat w \<le> e then p\<lparr>msPrevious := now2, notePlayed := False\<rparr> else p))"
  using elapsed_of_nat [OF assms, of T]
    polls_by_elapsed [OF elapsed_of_nat [OF assms, of T], of p hw n t0 w now2]
  by (rule conjI)

theorem elapsed_wraparound_witness:
  "(600 :: nat) < 2 ^ 32
   \<and> (of_nat (4294967286 + 600) :: u32) = 590 \<and> (of_nat 4294967286 :: u32) = 4294967286
   \<and> unat (elapsed 590 4294967286) = 600
   \<and> msStart late_player = 4294967286
   \<and> playNote sample_hw late_player demo_note 590 =
        Inr (late_player\<lparr>started := False, notePlayed := True\<rparr>, [LedcWrite 0 0, Delay 10])"
proof -
  have w: "(of_nat (4294967286 + 600) :: u32) = 590" "(of_nat 4294967286 :: u32) = 4294967286"
    by simp_all
  have st: "started late_player \<and> \<not> notePlayed late_player \<and> tempo late_player \<noteq> 0
      \<and> msStart late_player = of_nat 4294967286"
    "channel late_player = 0" "msNoteGap late_player = 10"
    "unat (noteDuration (mn_value demo_note) (tempo late_player)) = 526"
    by (simp_all add: late_player_def demo_player_def demo_note_def MelodyPlayer_def
        setVolume_def noteDuration_def N4_LEN_def)
  show ?thesis
    using elapsed_wraparound [of 600 4294967286 late_player sample_hw demo_note 0 0 0]
    unfolding w using st by simp
qed

section \<open>Commands issued by one poll\<close>

text \<open>
  Claim C9, as stated, fails: the poll that starts a note and the poll that triggers a
  beat each issue two tone-capability commands, the frequency and then the duty cycle.
\<close>

theorem one_command_counterexample:
  "playMelody sample_hw demo_player [demo_note] 1 False 1000 (sample_random 0) =
     Inr (demo_player\<lparr>msStart := 1000, started := True\<rparr>,
          [LedcWriteNote 0 NOTE_A 4, LedcWrite 0 100])
   \<and> playBeats demo_player 1000 1000 1000 =
     Inr (demo_player\<lparr>started := True, msStart := 1000\<rparr>,
          [LedcWriteNote 0 NOTE_A 7, LedcWrite 0 100])
   \<and> length (filter is_tone_cmd [LedcWriteNote 0 NOTE_A 4, LedcWrite 0 100]) = 2
   \<and> length (filter is_tone_cmd [LedcWriteNote 0 NOTE_A 7, LedcWrite 0 100]) = 2"
  by (simp add: demo_player_def demo_note_def sample_hw_def MelodyPlayer_def setVolume_def
      playMelody_def playNote_def playBeats_def index_note_def note_index_def
      sample_random_def Let_def elapsed_def)

lemma playMelody_tone_count:
  "playMelody hw p m len rep now rnd = Inr (p', cmds) \<Longrightarrow>
     length (filter is_tone_cmd cmds) \<le> 2
     \<and> (started p \<longrightarrow> length (filter is_tone_cmd cmds) \<le> 1)"
  by (auto simp: playMelody_def Let_def playNote_def split: if_splits sum.splits)

lemma playBeats_tone_count:
  "playBeats p t0 t1 t2 = Inr (p', cmds) \<Longrightarrow>
     length (filter is_tone_cmd cmds) \<le> 3
     \<and> (started p \<longrightarrow> length (filter is_tone_cmd cmds) \<le> 1)
     \<and> (elapsed t1 t0 \<le> 4 \<longrightarrow> length (filter is_tone_cmd cmds) \<le> 2)"
  by (auto simp: playBeats_def Let_def mute_def split: if_splits)

text \<open>
  Claim C9, amended. A poll of either melody entry point issues at most two
  tone-capability commands, and at most one when a note is already sounding. A poll of the
  metronome issues at most three (frequency and duty cycle when it triggers, and at most
  one silence), at most two when the clock advances by no more than 4 ms between the
  trigger and the first comparison, and at most one when the beat has already started.
\<close>

theorem poll_command_bound:
  "(playMelody hw p m len rep now rnd = Inr (p', cmds) \<longrightarrow>
       length (filter is_tone_cmd cmds) \<le> 2
       \<and> (started p \<longrightarrow> length (filter is_tone_cmd cmds) \<le> 1))
   \<and> (playMelody_stored hw p rep now rnd = Inr (p', cmds) \<longrightarrow>
       length (filter is_tone_cmd cmds) \<le> 2
       \<and> (started p \<longrightarrow> length (filter is_tone_cmd cmds) \<le> 1))
   \<and> (playBeats p t0 t1 t2 = Inr (p', cmds) \<longrightarrow>
       length (filter is_tone_cmd cmds) \<le> 3
       \<and> (started p \<longrightarrow> length (filter is_tone_cmd cmds) \<le> 1)
       \<and> (elapsed t1 t0 \<le> 4 \<longrightarrow> length (filter is_tone_cmd cmds) \<le> 2))"
proof (intro conjI impI)
  assume "playMelody_stored hw p rep now rnd = Inr (p', cmds)"
  then have a: "cmds = [] \<or> (\<exists>m. playMelody hw p m (melodyLength p) rep now rnd = Inr (p', cmds))"
    by (auto simp: playMelody_stored_def split: option.splits)
  then show "length (filter is_tone_cmd cmds) \<le> 2"
    using playMelody_tone_count by fastforce
  assume "started p"
  then show "length (filter is_tone_cmd cmds) \<le> 1"
    using a playMelody_tone_count by fastforce
qed (use playMelody_tone_count playBeats_tone_count in blast)+

theorem poll_command_bound_witness:
  "playMelody sample_hw demo_player [demo_note] 1 False 1000 (sample_random 0) =
     Inr (demo_player\<lparr>msStart := 1000, started := True\<rparr>,
          [LedcWriteNote 0 NOTE_A 4, LedcWrite 0 100])
   \<and> length (filter is_tone_cmd [LedcWriteNote 0 NOTE_A 4, LedcWrite 0 100]) \<le> 2"
proof -
  have run: "playMelody sample_hw demo_player [demo_note] 1 False 1000 (sample_random 0) =
     Inr (demo_player\<lparr>msStart := 1000, started := True\<rparr>,
          [LedcWriteNote 0 NOTE_A 4, LedcWrite 0 100])"
    by (simp add: demo_player_def demo_note_def sample_hw_def MelodyPlayer_def setVolume_def
        playMelody_def playNote_def index_note_def note_index_def sample_random_def Let_def)
  show ?thesis
    using run poll_command_bound [of sample_hw demo_player "[demo_note]" 1 False 1000 "sample_random 0"
        "demo_player\<lparr>msStart := 1000, started := True\<rparr>"
        "[LedcWriteNote 0 NOTE_A 4, LedcWrite 0 100]" 0 0 0]
    by blast
qed

section \<open>The channels addressed by the metronome\<close>

lemma playBeats_trigger:
  "\<not> started p \<Longrightarrow> tempo p \<noteq> 0 \<Longrightarrow>
   \<exists>p' rest. playBeats p t0 t1 t2 =
       Inr (p', LedcWriteNote 0 NOTE_A 7 # LedcWrite (channel p) (volume p) # rest)
     \<and> (rest = [] \<or> rest = [LedcWrite (channel p) 0])"
  by (simp add: playBeats_def Let_def mute_def)

lemma playBeats_channel: "playBeats p t0 t1 t2 = Inr (p', cmds) \<Longrightarrow> channel p' = channel p"
  by (auto simp: playBeats_def Let_def split: if_splits)

lemma playBeats_cmd_channels:
  "playBeats p t0 t1 t2 = Inr (p', cmds) \<Longrightarrow> c \<in> set cmds \<Longrightarrow>
   cmd_channel c = Some (if is_start_tone c then 0 else channel p)"
  by (auto simp: playBeats_def Let_def mute_def split: if_splits)

text \<open>
  Claim C10. A player constructed with channel \<open>c\<close> keeps it. Every frequency command
  of a metronome poll addresses channel 0 and every duty-cycle command (amplitude or
  silence) addresses the player's channel; the trigger poll issues the frequency command
  on channel 0 followed by the amplitude on the player's channel, and the two address the
  same channel exactly when the player's channel is 0.
\<close>

theorem playBeats_channels:
  "channel (fst (MelodyPlayer pn c)) = c
   \<and> channel (setVolume p v) = channel p
   \<and> channel (setTempo p b) = channel p
   \<and> (playBeats p t0 t1 t2 = Inr (p', cmds) \<longrightarrow>
        channel p' = channel p
        \<and> (\<forall>x \<in> set cmds. cmd_channel x = Some (if is_start_tone x then 0 else channel p)))
   \<and> (\<not> started p \<and> tempo p \<noteq> 0 \<longrightarrow>
        (\<exists>q rest. playBeats p t0 t1 t2 =
            Inr (q, LedcWriteNote 0 NOTE_A 7 # LedcWrite (channel p) (volume p) # rest)
          \<and> (rest = [] \<or> rest = [LedcWrite (channel p) 0]))
        \<and> (cmd_channel (LedcWriteNote 0 NOTE_A 7) = cmd_channel (LedcWrite (channel p) (volume p))
             \<longleftrightarrow> channel p = 0))"
  using playBeats_trigger [of p t0 t1 t2] playBeats_channel [of p t0 t1 t2 p' cmds]
    playBeats_cmd_channels [of p t0 t1 t2 p' cmds]
  by (auto simp: MelodyPlayer_def setVolume_def setTempo_def)

theorem playBeats_channels_witness:
  "channel channel2_player = 2 \<and> \<not> started channel2_player \<and> tempo channel2_player \<noteq> 0
   \<and> playBeats channel2_player 1000 1000 1000 =
       Inr (channel2_player\<lparr>started := True, msStart := 1000\<rparr>,
            [LedcWriteNote 0 NOTE_A 7, LedcWrite 2 100])
   \<and> cmd_channel (LedcWriteNote 0 NOTE_A 7) \<noteq> cmd_channel (LedcWrite 2 100)
   \<and> playBeats (channel2_player\<lparr>started := True, msStart := 1000\<rparr>) 0 1005 1005 =
       Inr (channel2_player\<lparr>started := True, msStart := 1000\<rparr>, [LedcWrite 2 0])"
proof -
  have st: "channel channel2_player = 2" "\<not> started channel2_player"
    "tempo channel2_player \<noteq> 0" "volume channel2_player = 100"
    by (simp_all add: channel2_player_def MelodyPlayer_def setVolume_def)
  have r1: "playBeats channel2_player 1000 1000 1000 =
       Inr (channel2_player\<lparr>started := True, msStart := 1000\<rparr>,
            [LedcWriteNote 0 NOTE_A 7, LedcWrite 2 100])"
    by (simp add: channel2_player_def MelodyPlayer_def setVolume_def playBeats_def Let_def
        elapsed_def)
  have r2: "playBeats (channel2_player\<lparr>started := True, msStart := 1000\<rparr>) 0 1005 1005 =
       Inr (channel2_player\<lparr>started := True, msStart := 1000\<rparr>, [LedcWrite 2 0])"
    by (simp add: channel2_player_def MelodyPlayer_def setVolume_def playBeats_def Let_def
        elapsed_def mute_def)
  show ?thesis
    using st r1 r2
      playBeats_channels [of 25 2 channel2_player 100 114 1000 1000 1000
        "channel2_player\<lparr>started := True, msStart := 1000\<rparr>"
        "[LedcWriteNote 0 NOTE_A 7, LedcWrite 2 100]"]
    by simp
qed

section \<open>The cursor of the melody sequencer\<close>

lemma playMelody_at_end:
  "len \<le> noteCounter p \<Longrightarrow>
   playMelody hw p m len rep now rnd =
     Inr (if rep then p\<lparr>notePlayed := False, noteCounter := 0\<rparr> else p\<lparr>notePlayed := False\<rparr>, [])"
  by (simp add: playMelody_def Let_def)

lemma playMelody_cursor_step:
  "noteCounter p < len \<Longrightarrow> playMelody hw p m len rep now rnd = Inr (p', cmds) \<Longrightarrow>
   noteCounter p' = noteCounter p + (if notePlayed p' then 1 else 0)"
  by (auto simp: playMelody_def Let_def playNote_def split: if_splits sum.splits)

lemma playMelody_cursor_norepeat:
  "playMelody hw p m len False now rnd = Inr (p', cmds) \<Longrightarrow>
   noteCounter p' = noteCounter p + (if notePlayed p' then 1 else 0)"
proof (cases "noteCounter p < len")
  case True
  assume "playMelody hw p m len False now rnd = Inr (p', cmds)"
  with True show ?thesis by (rule playMelody_cursor_step)
next
  case False
  assume "playMelody hw p m len False now rnd = Inr (p', cmds)"
  with False show ?thesis by (auto simp: playMelody_at_end)
qed

lemma playMelody_polls_Cons:
  "playMelody_polls hw m len rep p (i # ins) = Inr ps \<Longrightarrow>
   \<exists>p1 c1 ps1. playMelody hw p m len rep (fst i) (snd i) = Inr (p1, c1)
      \<and> playMelody_polls hw m len rep p1 ins = Inr ps1 \<and> ps = p1 # ps1"
  by (cases i) (auto split: sum.splits)

lemma polls_cursor_count:
  "playMelody_polls hw m len False p ins = Inr ps \<Longrightarrow>
   noteCounter (last (p # ps)) = noteCounter p + int (length (filter notePlayed ps))"
proof (induction ins arbitrary: p ps)
  case Nil
  then show ?case by simp
next
  case (Cons i ins)
  from playMelody_polls_Cons [OF Cons.prems] obtain p1 c1 ps1 where
    step: "playMelody hw p m len False (fst i) (snd i) = Inr (p1, c1)" and
    rest: "playMelody_polls hw m len False p1 ins = Inr ps1" and ps: "ps = p1 # ps1"
    by blast
  have "noteCounter (last (p1 # ps1)) = noteCounter p1 + int (length (filter notePlayed ps1))"
    using Cons.IH [OF rest] .
  moreover have "noteCounter p1 = noteCounter p + (if notePlayed p1 then 1 else 0)"
    using playMelody_cursor_norepeat [OF step] .
  ultimately show ?case
    using ps by simp
qed

lemma polls_cursor_trace:
  "playMelody_polls hw m len False p ins = Inr ps \<Longrightarrow>
   noteCounter p \<le> len \<Longrightarrow> len \<le> noteCounter (last (p # ps)) \<Longrightarrow>
   remdups_adj (map noteCounter (p # ps)) = [noteCounter p..len]"
proof (induction ins arbitrary: p ps)
  case Nil
  then show ?case by simp
next
  case (Cons i ins)
  from playMelody_polls_Cons [OF Cons.prems(1)] obtain p1 c1 ps1 where
    step: "playMelody hw p m len False (fst i) (snd i) = Inr (p1, c1)" and
    rest: "playMelody_polls hw m len False p1 ins = Inr ps1" and ps: "ps = p1 # ps1"
    by blast
  have c1: "noteCounter p1 = noteCounter p + (if notePlayed p1 then 1 else 0)"
    using playMelody_cursor_norepeat [OF step] .
  have stay: "noteCounter p = len \<Longrightarrow> noteCounter p1 = len"
    using step by (auto simp: playMelody_at_end)
  have le1: "noteCounter p1 \<le> len"
    using c1 stay Cons.prems(2) by (cases "noteCounter p = len") auto
  have fin: "len \<le> noteCounter (last (p1 # ps1))"
    using Cons.prems(3) ps by simp
  have ih: "remdups_adj (map noteCounter (p1 # ps1)) = [noteCounter p1..len]"
    using Cons.IH [OF rest le1 fin] .
  show ?case
  proof (cases "noteCounter p1 = noteCounter p")
    case True
    then show ?thesis using ih ps by simp
  next
    case False
    then have nx: "noteCounter p1 = noteCounter p + 1"
      using c1 by (simp split: if_splits)
    then have "noteCounter p < len"
      using le1 by simp
    then have "[noteCounter p..len] = noteCounter p # [noteCounter p + 1..len]"
      by (simp add: upto_rec1)
    then show ?thesis
      using ih ps nx False by simp
  qed
qed

lemma two_notes_run:
  "playMelody_polls sample_hw two_notes 2 False demo_player two_notes_polls =
     Inr two_notes_states"
  by (simp add: two_notes_polls_def two_notes_states_def demo_player_def two_notes_def
      demo_note_def demo_rest_def sample_hw_def
      MelodyPlayer_def setVolume_def playMelody_def playNote_def index_note_def note_index_def
      sample_random_def Let_def
      noteDuration_def N4_LEN_def elapsed_def)

text \<open>
  Claim C4, as stated, fails for the poll without repeat: \<open>playMelody\<close> writes
  \<open>_notePlayed = false\<close> before it tests the cursor. The poll that completes the last of
  two notes leaves the cursor at 2 with \<open>_notePlayed\<close> set; the next poll clears the flag,
  so it does not leave the state as it was, and a call of \<open>playNote\<close> that did nothing
  before that poll starts a note after it.
\<close>

theorem playMelody_terminal_counterexample:
  "playMelody_polls sample_hw two_notes 2 False demo_player two_notes_polls =
     Inr two_notes_states
   \<and> two_notes_states ! 3 = two_notes_done
   \<and> (2 :: int) \<le> noteCounter two_notes_done
   \<and> notePlayed two_notes_done
   \<and> playMelody sample_hw two_notes_done two_notes 2 False 2080 (sample_random 0)
      = Inr (two_notes_done\<lparr>notePlayed := False\<rparr>, [])
   \<and> two_notes_done\<lparr>notePlayed := False\<rparr> \<noteq> two_notes_done
   \<and> playNote sample_hw two_notes_done demo_note 2090 = Inr (two_notes_done, [])
   \<and> playNote sample_hw (two_notes_done\<lparr>notePlayed := False\<rparr>) demo_note 2090
      = Inr (two_notes_done\<lparr>notePlayed := False, msStart := 2090, started := True\<rparr>,
             [LedcWriteNote 0 NOTE_A 4, LedcWrite 0 100])"
proof -
  have differ: "two_notes_done\<lparr>notePlayed := False\<rparr> \<noteq> two_notes_done"
  proof
    assume "two_notes_done\<lparr>notePlayed := False\<rparr> = two_notes_done"
    then have "notePlayed (two_notes_done\<lparr>notePlayed := False\<rparr>) = notePlayed two_notes_done"
      by (rule arg_cong)
    then show False
      by (simp add: two_notes_done_def)
  qed
  have rest: "two_notes_states ! 3 = two_notes_done"
    "(2 :: int) \<le> noteCounter two_notes_done" "notePlayed two_notes_done"
    "playMelody sample_hw two_notes_done two_notes 2 False 2080 (sample_random 0)
      = Inr (two_notes_done\<lparr>notePlayed := False\<rparr>, [])"
    "playNote sample_hw two_notes_done demo_note 2090 = Inr (two_notes_done, [])"
    "playNote sample_hw (two_notes_done\<lparr>notePlayed := False\<rparr>) demo_note 2090
      = Inr (two_notes_done\<lparr>notePlayed := False, msStart := 2090, started := True\<rparr>,
             [LedcWriteNote 0 NOTE_A 4, LedcWrite 0 100])"
    by (simp_all add: two_notes_states_def two_notes_done_def demo_player_def demo_note_def
        sample_hw_def MelodyPlayer_def setVolume_def playMelody_def playNote_def Let_def)
  show ?thesis
    using two_notes_run differ rest by blast
qed

text \<open>
  Claim C4, amended. When a poll of \<open>playMelody\<close> starts with the cursor at or beyond
  \<open>len\<close>: with repeat it resets the cursor to 0 and issues no command; without repeat
  it issues no command and leaves the cursor and all other state of the player as they
  are, except that it clears the completion flag \<open>_notePlayed\<close>, and every further poll
  changes nothing at all. Without repeat, in a run of polls on a melody of length \<open>len\<close>
  that starts with the cursor at 0 and ends with it at the end of the melody, the cursor takes
  the values \<open>0, 1, ..., len\<close> in this order, each in one unbroken stretch of polls.
\<close>

theorem playMelody_end_of_melody:
  "(len \<le> noteCounter p \<longrightarrow>
      playMelody hw p m len True now rnd = Inr (p\<lparr>notePlayed := False, noteCounter := 0\<rparr>, [])
    \<and> playMelody hw p m len False now rnd = Inr (p\<lparr>notePlayed := False\<rparr>, [])
    \<and> playMelody hw (p\<lparr>notePlayed := False\<rparr>) m len False now' rnd'
        = Inr (p\<lparr>notePlayed := False\<rparr>, []))
   \<and> (len = int (length m) \<and> noteCounter p = 0
      \<and> playMelody_polls hw m len False p ins = Inr ps
      \<and> len \<le> noteCounter (last (p # ps)) \<longrightarrow>
      remdups_adj (map noteCounter (p # ps)) = [0..len])"
proof (intro conjI impI)
  assume a: "len = int (length m) \<and> noteCounter p = 0
      \<and> playMelody_polls hw m len False p ins = Inr ps
      \<and> len \<le> noteCounter (last (p # ps))"
  have run: "playMelody_polls hw m len False p ins = Inr ps"
    using a by (elim conjE)
  have fin: "len \<le> noteCounter (last (p # ps))"
    using a by (elim conjE)
  have zero: "noteCounter p = 0"
    using a by (elim conjE)
  have le: "noteCounter p \<le> len"
    using a by (elim conjE) simp
  show "remdups_adj (map noteCounter (p # ps)) = [0..len]"
    using polls_cursor_trace [OF run le fin] unfolding zero .
qed (simp_all add: playMelody_at_end)

theorem playMelody_end_of_melody_witness:
  "(2 :: int) = int (length two_notes) \<and> noteCounter demo_player = 0
   \<and> playMelody_polls sample_hw two_notes 2 False demo_player two_notes_polls =
        Inr two_notes_states
   \<and> map noteCounter (demo_player # two_notes_states) = [0, 0, 1, 1, 2, 2]
   \<and> remdups_adj (map noteCounter (demo_player # two_notes_states)) = [0..2]
   \<and> [0..2] = [0, 1, 2 :: int]
   \<and> (2 :: int) \<le> noteCounter two_notes_done
   \<and> playMelody sample_hw two_notes_done two_notes 2 True 2080 (sample_random 0)
      = Inr (two_notes_done\<lparr>notePlayed := False, noteCounter := 0\<rparr>, [])
   \<and> playMelody sample_hw two_notes_done two_notes 2 False 2080 (sample_random 0)
      = Inr (two_notes_done\<lparr>notePlayed := False\<rparr>, [])
   \<and> playMelody sample_hw (two_notes_done\<lparr>notePlayed := False\<rparr>) two_notes 2 False 2090
        (sample_random 0)
      = Inr (two_notes_done\<lparr>notePlayed := False\<rparr>, [])"
proof -
  have len: "(2 :: int) = int (length two_notes)"
    by (simp add: two_notes_def)
  have c0: "noteCounter demo_player = 0"
    by (simp add: demo_player_def MelodyPlayer_def setVolume_def)
  have cs: "map noteCounter (demo_player # two_notes_states) = [0, 0, 1, 1, 2, 2]"
    by (simp add: two_notes_states_def c0)
  have up: "[0..2] = [0, 1, 2 :: int]"
    by (simp add: upto_rec1)
  have fin: "(2 :: int) \<le> noteCounter (last (demo_player # two_notes_states))"
    by (simp add: two_notes_states_def)
  have finq: "(2 :: int) \<le> noteCounter two_notes_done"
    by (simp add: two_notes_done_def)
  note at_end = playMelody_end_of_melody [of 2 two_notes_done sample_hw two_notes
      2080 "sample_random 0" 2090 "sample_random 0", THEN conjunct1, THEN mp, OF finq]
  note whole = playMelody_end_of_melody [of 2 demo_player sample_hw two_notes
      2080 "sample_random 0" 2090 "sample_random 0"
      two_notes_polls two_notes_states, THEN conjunct2, THEN mp,
      OF conjI [OF len conjI [OF c0 conjI [OF two_notes_run fin]]]]
  show ?thesis
    using len c0 two_notes_run cs whole up finq at_end by blast
qed

lemma index_note_inside:
  "0 \<le> i \<Longrightarrow> i < int (length m) \<Longrightarrow> index_note m i = Inr (m ! nat i)"
  by (simp add: index_note_def)

lemma playNote_noteCounter:
  "playNote hw p n now = Inr (p1, cmds) \<Longrightarrow> noteCounter p1 = noteCounter p"
  by (auto simp: playNote_def split: if_splits)

lemma note_index_flag: "note_index (p\<lparr>notePlayed := b\<rparr>) len rnd = note_index p len rnd"
  by (simp add: note_index_def)

lemma playMelody_inside:
  assumes lo: "0 \<le> k" and hi: "k < int (length m)" and cur: "noteCounter p < len"
    and k: "k = note_index p len rnd"
  shows "playMelody hw p m len rep now rnd =
     (case playNote hw (p\<lparr>notePlayed := False\<rparr>) (m ! nat k) now of
        Inl e \<Rightarrow> Inl e
      | Inr (p1, cmds) \<Rightarrow>
          Inr (if notePlayed p1 then p1\<lparr>noteCounter := noteCounter p + 1\<rparr> else p1, cmds))"
proof -
  have idx: "index_note m (note_index (p\<lparr>notePlayed := False\<rparr>) len rnd) = Inr (m ! nat k)"
    using index_note_inside [OF lo hi] unfolding k note_index_flag .
  have unf: "playMelody hw p m len rep now rnd =
     (case playNote hw (p\<lparr>notePlayed := False\<rparr>) (m ! nat k) now of
        Inl e \<Rightarrow> Inl e
      | Inr (p1, cmds) \<Rightarrow>
          Inr (if notePlayed p1 then p1\<lparr>noteCounter := noteCounter p1 + 1\<rparr> else p1, cmds))"
    using cur by (simp add: playMelody_def Let_def idx)
  show ?thesis
  proof (cases "playNote hw (p\<lparr>notePlayed := False\<rparr>) (m ! nat k) now")
    case (Inl e)
    then show ?thesis unfolding unf by simp
  next
    case (Inr r)
    obtain p1 cmds where r: "r = (p1, cmds)"
      by (cases r)
    have "noteCounter p1 = noteCounter p"
      using playNote_noteCounter [OF Inr [unfolded r]] by simp
    then show ?thesis
      unfolding unf Inr r by simp
  qed
qed

lemma playNote_start_cmds:
  "\<not> started p \<Longrightarrow> \<not> notePlayed p \<Longrightarrow>
   \<exists>amp. playNote hw p n now =
     Inr (p\<lparr>msStart := now, started := True\<rparr>,
          [LedcWriteNote (channel p) (mn_note n) (mn_octave n), amp])"
  by (simp add: playNote_def)

lemma playMelody_start_cmds:
  assumes lo: "0 \<le> k" and hi: "k < int (length m)" and cur: "noteCounter p < len"
    and k: "k = note_index p len rnd" and idle: "\<not> started p"
  shows "\<exists>amp. playMelody hw p m len rep now rnd =
     Inr (p\<lparr>notePlayed := False, msStart := now, started := True\<rparr>,
          [LedcWriteNote (channel p) (mn_note (m ! nat k)) (mn_octave (m ! nat k)), amp])"
proof -
  obtain amp where "playNote hw (p\<lparr>notePlayed := False\<rparr>) (m ! nat k) now =
     Inr (p\<lparr>notePlayed := False, msStart := now, started := True\<rparr>,
          [LedcWriteNote (channel p) (mn_note (m ! nat k)) (mn_octave (m ! nat k)), amp])"
    using playNote_start_cmds [of "p\<lparr>notePlayed := False\<rparr>" hw "m ! nat k" now] idle
    by auto
  then show ?thesis
    unfolding playMelody_inside [OF lo hi cur k] by simp
qed

lemma playMelody_in_array:
  assumes lo: "0 \<le> k" and hi: "k < int (length m)" and cur: "noteCounter p < len"
    and k: "k = note_index p len rnd"
  shows "playMelody hw p m len rep now rnd \<noteq> Inl IndexOutOfRange"
proof (cases "playNote hw (p\<lparr>notePlayed := False\<rparr>) (m ! nat k) now")
  case (Inl e)
  then have "e = DivideByZero"
    by (auto simp: playNote_def split: if_splits)
  then show ?thesis
    unfolding playMelody_inside [OF lo hi cur k] Inl by simp
next
  case (Inr r)
  then show ?thesis
    unfolding playMelody_inside [OF lo hi cur k] by (simp split: prod.splits)
qed

text \<open>
  Claim C5. Let the melody have the length \<open>len\<close>, let the poll start with the cursor
  \<open>i\<close> inside it, and let \<open>random(n)\<close> return a value from 0 to \<open>n - 1\<close> for every
  \<open>n > 0\<close>, whatever the state \<open>w\<close> of the generator. In normal mode \<open>playMelody\<close>
  drives \<open>playNote\<close> on \<open>m[i]\<close>. In random mode it drives \<open>playNote\<close> on
  \<open>m[random(len)]\<close>: the index lies from 0 to \<open>len - 1\<close>, no read leaves the array, and
  the index does not depend on the cursor; where the generator returns each value from 0 to
  \<open>len - 1\<close> for the same share \<open>1 / len\<close> of its states \<open>ws\<close>, each index is driven
  for that share of them. The poll that starts a note names that note's pitch and octave in
  its frequency command. In both modes the cursor grows by one exactly when the poll reports
  the note as played, and over a run without repeat it grows by the number of polls that
  did.
\<close>

theorem playMelody_selects:
  assumes len: "len = int (length m)" and lo: "0 \<le> noteCounter p" and hi: "noteCounter p < len"
    and range: "\<forall>w n. 0 < n \<longrightarrow> 0 \<le> gen w n \<and> gen w n < n"
  shows "(\<not> random_flag p \<longrightarrow>
            playMelody hw p m len rep now (gen w) =
              (case playNote hw (p\<lparr>notePlayed := False\<rparr>) (m ! nat (noteCounter p)) now of
                 Inl e \<Rightarrow> Inl e
               | Inr (p1, cmds) \<Rightarrow>
                   Inr (if notePlayed p1 then p1\<lparr>noteCounter := noteCounter p + 1\<rparr> else p1,
                        cmds))
          \<and> (\<not> started p \<longrightarrow>
               (\<exists>amp. playMelody hw p m len rep now (gen w) =
                  Inr (p\<lparr>notePlayed := False, msStart := now, started := True\<rparr>,
                       [LedcWriteNote (channel p) (mn_note (m ! nat (noteCounter p)))
                          (mn_octave (m ! nat (noteCounter p))), amp]))))
       \<and> (random_flag p \<longrightarrow>
            0 \<le> gen w len \<and> gen w len < len
          \<and> playMelody hw p m len rep now (gen w) =
              (case playNote hw (p\<lparr>notePlayed := False\<rparr>) (m ! nat (gen w len)) now of
                 Inl e \<Rightarrow> Inl e
               | Inr (p1, cmds) \<Rightarrow>
                   Inr (if notePlayed p1 then p1\<lparr>noteCounter := noteCounter p + 1\<rparr> else p1,
                        cmds))
          \<and> (\<not> started p \<longrightarrow>
               (\<exists>amp. playMelody hw p m len rep now (gen w) =
                  Inr (p\<lparr>notePlayed := False, msStart := now, started := True\<rparr>,
                       [LedcWriteNote (channel p) (mn_note (m ! nat (gen w len)))
                          (mn_octave (m ! nat (gen w len))), amp])))
          \<and> (\<forall>j. note_index (p\<lparr>noteCounter := j\<rparr>) len (gen w) = note_index p len (gen w))
          \<and> ((\<forall>k. 0 \<le> k \<and> k < len \<longrightarrow>
                  length (filter (\<lambda>v. gen v len = k) ws) * nat len = length ws) \<longrightarrow>
              (\<forall>k. 0 \<le> k \<and> k < len \<longrightarrow>
                  length (filter (\<lambda>v. note_index p len (gen v) = k) ws) * nat len
                    = length ws)))
       \<and> playMelody hw p m len rep now (gen w) \<noteq> Inl IndexOutOfRange
       \<and> (\<forall>p' cmds. playMelody hw p m len rep now (gen w) = Inr (p', cmds) \<longrightarrow>
            noteCounter p' = noteCounter p + (if notePlayed p' then 1 else 0))
       \<and> (\<forall>ins ps. playMelody_polls hw m len False p ins = Inr ps \<longrightarrow>
            noteCounter (last (p # ps)) = noteCounter p + int (length (filter notePlayed ps)))"
proof -
  have pos: "0 < len"
    using lo hi by simp
  have rlo: "0 \<le> gen w len" and rhi': "gen w len < len"
    using range pos by blast+
  have rhi: "gen w len < int (length m)"
    using rhi' len by simp
  have ilo: "0 \<le> note_index p len (gen w)" and ihi: "note_index p len (gen w) < int (length m)"
    using lo hi rlo rhi len by (simp_all add: note_index_def)
  have inside: "playMelody hw p m len rep now (gen w) \<noteq> Inl IndexOutOfRange"
    using playMelody_in_array [OF ilo ihi hi refl] .
  have step: "\<forall>p' cmds. playMelody hw p m len rep now (gen w) = Inr (p', cmds) \<longrightarrow>
      noteCounter p' = noteCounter p + (if notePlayed p' then 1 else 0)"
    using playMelody_cursor_step [OF hi] by blast
  have run: "\<forall>ins ps. playMelody_polls hw m len False p ins = Inr ps \<longrightarrow>
      noteCounter (last (p # ps)) = noteCounter p + int (length (filter notePlayed ps))"
    using polls_cursor_count by blast
  have seq: "\<not> random_flag p \<longrightarrow>
      playMelody hw p m len rep now (gen w) =
        (case playNote hw (p\<lparr>notePlayed := False\<rparr>) (m ! nat (noteCounter p)) now of
           Inl e \<Rightarrow> Inl e
         | Inr (p1, cmds) \<Rightarrow>
             Inr (if notePlayed p1 then p1\<lparr>noteCounter := noteCounter p + 1\<rparr> else p1, cmds))
      \<and> (\<not> started p \<longrightarrow>
           (\<exists>amp. playMelody hw p m len rep now (gen w) =
              Inr (p\<lparr>notePlayed := False, msStart := now, started := True\<rparr>,
                   [LedcWriteNote (channel p) (mn_note (m ! nat (noteCounter p)))
                      (mn_octave (m ! nat (noteCounter p))), amp])))"
  proof (intro impI conjI)
    assume "\<not> random_flag p"
    then have k: "noteCounter p = note_index p len (gen w)"
      by (simp add: note_index_def)
    show "playMelody hw p m len rep now (gen w) =
        (case playNote hw (p\<lparr>notePlayed := False\<rparr>) (m ! nat (noteCounter p)) now of
           Inl e \<Rightarrow> Inl e
         | Inr (p1, cmds) \<Rightarrow>
             Inr (if notePlayed p1 then p1\<lparr>noteCounter := noteCounter p + 1\<rparr> else p1, cmds))"
      by (rule playMelody_inside [OF lo hi [unfolded len] hi k])
    assume "\<not> started p"
    then show "\<exists>amp. playMelody hw p m len rep now (gen w) =
        Inr (p\<lparr>notePlayed := False, msStart := now, started := True\<rparr>,
             [LedcWriteNote (channel p) (mn_note (m ! nat (noteCounter p)))
                (mn_octave (m ! nat (noteCounter p))), amp])"
      by (rule playMelody_start_cmds [OF lo hi [unfolded len] hi k])
  qed
  have rnd: "random_flag p \<longrightarrow>
      0 \<le> gen w len \<and> gen w len < len
      \<and> playMelody hw p m len rep now (gen w) =
          (case playNote hw (p\<lparr>notePlayed := False\<rparr>) (m ! nat (gen w len)) now of
             Inl e \<Rightarrow> Inl e
           | Inr (p1, cmds) \<Rightarrow>
               Inr (if notePlayed p1 then p1\<lparr>noteCounter := noteCounter p + 1\<rparr> else p1, cmds))
      \<and> (\<not> started p \<longrightarrow>
           (\<exists>amp. playMelody hw p m len rep now (gen w) =
              Inr (p\<lparr>notePlayed := False, msStart := now, started := True\<rparr>,
                   [LedcWriteNote (channel p) (mn_note (m ! nat (gen w len)))
                      (mn_octave (m ! nat (gen w len))), amp])))
      \<and> (\<forall>j. note_index (p\<lparr>noteCounter := j\<rparr>) len (gen w) = note_index p len (gen w))
      \<and> ((\<forall>k. 0 \<le> k \<and> k < len \<longrightarrow>
              length (filter (\<lambda>v. gen v len = k) ws) * nat len = length ws) \<longrightarrow>
          (\<forall>k. 0 \<le> k \<and> k < len \<longrightarrow>
              length (filter (\<lambda>v. note_index p len (gen v) = k) ws) * nat len = length ws))"
  proof (intro impI conjI allI)
    assume rf: "random_flag p"
    then have k: "gen w len = note_index p len (gen w)"
      by (simp add: note_index_def)
    show "0 \<le> gen w len" by (rule rlo)
    show "gen w len < len" by (rule rhi')
    show "playMelody hw p m len rep now (gen w) =
        (case playNote hw (p\<lparr>notePlayed := False\<rparr>) (m ! nat (gen w len)) now of
           Inl e \<Rightarrow> Inl e
         | Inr (p1, cmds) \<Rightarrow>
             Inr (if notePlayed p1 then p1\<lparr>noteCounter := noteCounter p + 1\<rparr> else p1, cmds))"
      by (rule playMelody_inside [OF rlo rhi hi k])
    show "\<exists>amp. playMelody hw p m len rep now (gen w) =
        Inr (p\<lparr>notePlayed := False, msStart := now, started := True\<rparr>,
             [LedcWriteNote (channel p) (mn_note (m ! nat (gen w len)))
                (mn_octave (m ! nat (gen w len))), amp])" if "\<not> started p"
      using that by (rule playMelody_start_cmds [OF rlo rhi hi k])
    show "note_index (p\<lparr>noteCounter := j\<rparr>) len (gen w) = note_index p len (gen w)" for j
      using rf by (simp add: note_index_def)
    fix k
    assume share: "\<forall>k. 0 \<le> k \<and> k < len \<longrightarrow>
        length (filter (\<lambda>v. gen v len = k) ws) * nat len = length ws"
      and "0 \<le> k \<and> k < len"
    then have "length (filter (\<lambda>v. gen v len = k) ws) * nat len = length ws"
      by blast
    moreover have "(\<lambda>v. note_index p len (gen v) = k) = (\<lambda>v. gen v len = k)"
      using rf by (simp add: note_index_def)
    ultimately show "length (filter (\<lambda>v. note_index p len (gen v) = k) ws) * nat len
        = length ws"
      by simp
  qed
  show ?thesis
    using seq rnd inside step run by blast
qed

theorem playMelody_selects_witness:
  "(2 :: int) = int (length two_notes)
   \<and> (0 :: int) \<le> noteCounter demo_player \<and> noteCounter demo_player < 2
   \<and> noteCounter (setRandomMode demo_player) = 0 \<and> random_flag (setRandomMode demo_player)
   \<and> two_notes ! nat 0 = demo_note \<and> two_notes ! nat 1 = demo_rest
   \<and> sample_random 1 2 = 1 \<and> sample_random 3 2 = 1
   \<and> playMelody sample_hw demo_player two_notes 2 False 1000 (sample_random 1) =
        Inr (demo_player\<lparr>notePlayed := False, msStart := 1000, started := True\<rparr>,
             [LedcWriteNote 0 NOTE_A 4, LedcWrite 0 100])
   \<and> playMelody sample_hw (setRandomMode demo_player) two_notes 2 False 1000 (sample_random 1) =
        Inr ((setRandomMode demo_player)\<lparr>notePlayed := False, msStart := 1000, started := True\<rparr>,
             [LedcWriteNote 0 REST 4, LedcWrite 0 0])
   \<and> length (filter (\<lambda>v. sample_random v 2 = 0) [0, 1, 2, 3]) * nat 2 = length [0, 1, 2, 3 :: nat]
   \<and> length (filter (\<lambda>v. sample_random v 2 = 1) [0, 1, 2, 3]) * nat 2 = length [0, 1, 2, 3 :: nat]
   \<and> length (filter (\<lambda>v. note_index (setRandomMode demo_player) 2 (sample_random v) = 0)
        [0, 1, 2, 3]) * nat 2 = length [0, 1, 2, 3 :: nat]
   \<and> length (filter (\<lambda>v. note_index (setRandomMode demo_player) 2 (sample_random v) = 1)
        [0, 1, 2, 3]) * nat 2 = length [0, 1, 2, 3 :: nat]
   \<and> playMelody_polls sample_hw two_notes 2 False demo_player two_notes_polls =
        Inr two_notes_states
   \<and> noteCounter (last (demo_player # two_notes_states)) =
        noteCounter demo_player + int (length (filter notePlayed two_notes_states))
   \<and> length (filter notePlayed two_notes_states) = 2"
proof -
  have len: "(2 :: int) = int (length two_notes)"
    by (simp add: two_notes_def)
  have lo: "(0 :: int) \<le> noteCounter demo_player" and hi: "noteCounter demo_player < 2"
    by (simp_all add: demo_player_def MelodyPlayer_def setVolume_def)
  have rlo: "(0 :: int) \<le> noteCounter (setRandomMode demo_player)"
    and rhi: "noteCounter (setRandomMode demo_player) < 2"
    and rc: "noteCounter (setRandomMode demo_player) = 0"
    and rf: "random_flag (setRandomMode demo_player)"
    by (simp_all add: setRandomMode_def demo_player_def MelodyPlayer_def setVolume_def)
  have range: "\<forall>w n. 0 < n \<longrightarrow> 0 \<le> sample_random w n \<and> sample_random w n < n"
    by (simp add: sample_random_def)
  have nts: "two_notes ! nat 0 = demo_note" "two_notes ! nat 1 = demo_rest"
    by (simp_all add: two_notes_def)
  have draws: "sample_random 1 2 = 1" "sample_random 3 2 = 1"
    by (simp_all add: sample_random_def)
  have share0: "length (filter (\<lambda>v. sample_random v 2 = 0) [0, 1, 2, 3]) * nat 2
      = length [0, 1, 2, 3 :: nat]"
    and share1: "length (filter (\<lambda>v. sample_random v 2 = 1) [0, 1, 2, 3]) * nat 2
      = length [0, 1, 2, 3 :: nat]"
    by (simp_all add: sample_random_def)
  have share: "\<forall>k. 0 \<le> k \<and> k < 2 \<longrightarrow>
      length (filter (\<lambda>v. sample_random v 2 = k) [0, 1, 2, 3]) * nat 2
        = length [0, 1, 2, 3 :: nat]"
  proof (intro allI impI)
    fix k :: int
    assume "0 \<le> k \<and> k < 2"
    then have "k = 0 \<or> k = 1"
      by auto
    then show "length (filter (\<lambda>v. sample_random v 2 = k) [0, 1, 2, 3]) * nat 2
        = length [0, 1, 2, 3 :: nat]"
      using share0 share1 by blast
  qed
  have seq_poll: "playMelody sample_hw demo_player two_notes 2 False 1000 (sample_random 1) =
        Inr (demo_player\<lparr>notePlayed := False, msStart := 1000, started := True\<rparr>,
             [LedcWriteNote 0 NOTE_A 4, LedcWrite 0 100])"
    by (simp add: demo_player_def two_notes_def demo_note_def demo_rest_def sample_hw_def
        MelodyPlayer_def setVolume_def playMelody_def playNote_def index_note_def
        note_index_def Let_def)
  have rnd_poll: "playMelody sample_hw (setRandomMode demo_player) two_notes 2 False 1000
        (sample_random 1) =
        Inr ((setRandomMode demo_player)\<lparr>notePlayed := False, msStart := 1000, started := True\<rparr>,
             [LedcWriteNote 0 REST 4, LedcWrite 0 0])"
    by (simp add: setRandomMode_def demo_player_def two_notes_def demo_note_def demo_rest_def
        sample_hw_def MelodyPlayer_def setVolume_def playMelody_def playNote_def index_note_def
        note_index_def sample_random_def Let_def)
  have played: "length (filter notePlayed two_notes_states) = 2"
    by (simp add: two_notes_states_def demo_player_def MelodyPlayer_def setVolume_def)
  note seq_all = playMelody_selects [of 2 two_notes demo_player sample_random sample_hw False
      1000 1 "[0, 1, 2, 3]", OF len lo hi range]
  note count = seq_all [THEN conjunct2, THEN conjunct2, THEN conjunct2, THEN conjunct2,
      THEN spec, THEN spec, THEN mp, OF two_notes_run]
  note rnd_all = playMelody_selects [of 2 two_notes "setRandomMode demo_player" sample_random
      sample_hw False 1000 1 "[0, 1, 2, 3]", OF len rlo rhi range,
      THEN conjunct2, THEN conjunct1, THEN mp, OF rf]
  note driven = rnd_all [THEN conjunct2, THEN conjunct2, THEN conjunct2, THEN conjunct2,
      THEN conjunct2, THEN mp, OF share]
  have d0: "length (filter (\<lambda>v. note_index (setRandomMode demo_player) 2 (sample_random v) = 0)
        [0, 1, 2, 3]) * nat 2 = length [0, 1, 2, 3 :: nat]"
    using driven [THEN spec, of 0] by simp
  have d1: "length (filter (\<lambda>v. note_index (setRandomMode demo_player) 2 (sample_random v) = 1)
        [0, 1, 2, 3]) * nat 2 = length [0, 1, 2, 3 :: nat]"
    using driven [THEN spec, of 1] by simp
  show ?thesis
    using len lo hi rc rf nts draws seq_poll rnd_poll share0 share1 d0 d1 two_notes_run count
      played
    by blast
qed

section \<open>The clicks of the metronome\<close>

lemma elapsed_later:
  assumes "s \<le> x" and "x - s < 2 ^ 32"
  shows "unat (elapsed (of_nat x) (of_nat s)) = x - s"
proof -
  have "unat (elapsed (of_nat (s + (x - s))) (of_nat s)) = x - s"
    using assms(2) by (rule elapsed_of_nat)
  moreover have "s + (x - s) = x"
    using assms(1) by simp
  ultimately show ?thesis by simp
qed

lemma playBeats_poll_started:
  assumes "started p" and "tempo p \<noteq> 0" and "msStart p = of_nat s"
    and "s \<le> x" and "x - s < 2 ^ 32"
  shows "playBeats p (of_nat x) (of_nat x) (of_nat x) =
     Inr (if beat_interval p < x - s then p\<lparr>started := False\<rparr> else p, snd (poll_log p s x))"
  using polls_by_elapsed [OF elapsed_later [OF assms(4,5)], of p _ _ "of_nat x"]
    assms(1,2,3)
  by (simp add: beat_interval_def poll_log_def)

lemma playBeats_poll_trigger:
  assumes "\<not> started p" and "tempo p \<noteq> 0"
  shows "playBeats p t t t =
     Inr (p\<lparr>started := True, msStart := t\<rparr>,
          [LedcWriteNote 0 NOTE_A 7, LedcWrite (channel p) (volume p)])"
  using assms by (simp add: playBeats_def Let_def elapsed_def)

lemma polls_quiet_stretch:
  assumes "started p" and "tempo p \<noteq> 0" and "msStart p = of_nat s"
  shows "\<forall>x \<in> set xs. s \<le> x \<and> x - s < 2 ^ 32 \<and> x - s \<le> beat_interval p \<Longrightarrow>
     playBeats_polls p (xs @ rest) =
       (case playBeats_polls p rest of
          Inl e \<Rightarrow> Inl e
        | Inr (p2, log) \<Rightarrow> Inr (p2, map (poll_log p s) xs @ log))"
proof (induction xs)
  case Nil
  show ?case by (simp split: sum.splits)
next
  case (Cons x xs)
  have x: "s \<le> x" "x - s < 2 ^ 32" "\<not> beat_interval p < x - s"
    using Cons.prems by auto
  have step: "playBeats p (of_nat x) (of_nat x) (of_nat x) = Inr (p, snd (poll_log p s x))"
    using playBeats_poll_started [OF assms x(1,2)] x(3) by simp
  have ih: "playBeats_polls p (xs @ rest) =
       (case playBeats_polls p rest of
          Inl e \<Rightarrow> Inl e
        | Inr (p2, log) \<Rightarrow> Inr (p2, map (poll_log p s) xs @ log))"
    using Cons.IH Cons.prems by simp
  show ?case
    by (simp add: step ih poll_log_def split: sum.splits)
qed

lemma beat_cycle_log:
  assumes idle: "\<not> started p" and tempo: "tempo p \<noteq> 0"
    and sorted: "sorted (s # pre @ [c, r])" and range: "r - s < 2 ^ 32"
    and within: "\<forall>x \<in> set pre. x - s \<le> beat_interval p"
    and beyond: "beat_interval p < c - s"
  shows "playBeats_polls p (s # pre @ [c, r]) =
     Inr (p\<lparr>started := True, msStart := of_nat r\<rparr>,
          (s, [LedcWriteNote 0 NOTE_A 7, LedcWrite (channel p) (volume p)])
          # map (poll_log p s) (pre @ [c])
          @ [(r, [LedcWriteNote 0 NOTE_A 7, LedcWrite (channel p) (volume p)])])"
proof -
  let ?on = "p\<lparr>started := True, msStart := of_nat s\<rparr>"
  have ord: "s \<le> c" "c \<le> r" "\<forall>x \<in> set pre. s \<le> x \<and> x \<le> c"
    using sorted by (auto simp: sorted_append)
  have on: "started ?on" "tempo ?on \<noteq> 0" "msStart ?on = of_nat s"
    using tempo by simp_all
  have bi: "beat_interval ?on = beat_interval p"
    by (simp add: beat_interval_def)
  have pl: "poll_log ?on s = poll_log p s"
    by (rule ext) (simp add: poll_log_def)
  have first: "playBeats p (of_nat s) (of_nat s) (of_nat s) =
      Inr (?on, [LedcWriteNote 0 NOTE_A 7, LedcWrite (channel p) (volume p)])"
    using idle tempo by (rule playBeats_poll_trigger)
  have pre_ok: "\<forall>x \<in> set pre. s \<le> x \<and> x - s < 2 ^ 32 \<and> x - s \<le> beat_interval ?on"
    using ord within range unfolding bi by auto
  define off where "off = ?on\<lparr>started := False\<rparr>"
  have off: "\<not> started off" "tempo off \<noteq> 0"
    "off\<lparr>started := True, msStart := of_nat r\<rparr> = p\<lparr>started := True, msStart := of_nat r\<rparr>"
    "channel off = channel p" "volume off = volume p"
    using tempo by (simp_all add: off_def)
  have clear: "playBeats ?on (of_nat c) (of_nat c) (of_nat c) = Inr (off, snd (poll_log p s c))"
    using playBeats_poll_started [OF on ord(1), unfolded bi pl] beyond range ord(2)
    by (simp add: off_def)
  have again: "playBeats off (of_nat r) (of_nat r) (of_nat r) =
      Inr (p\<lparr>started := True, msStart := of_nat r\<rparr>,
           [LedcWriteNote 0 NOTE_A 7, LedcWrite (channel p) (volume p)])"
    using playBeats_poll_trigger [OF off(1,2), of "of_nat r"] unfolding off(3,4,5) .
  have tail: "playBeats_polls ?on [c, r] =
      Inr (p\<lparr>started := True, msStart := of_nat r\<rparr>,
           [poll_log p s c, (r, [LedcWriteNote 0 NOTE_A 7, LedcWrite (channel p) (volume p)])])"
    by (simp add: clear again poll_log_def)
  have mid: "playBeats_polls ?on (pre @ [c, r]) =
      Inr (p\<lparr>started := True, msStart := of_nat r\<rparr>,
           map (poll_log p s) pre
           @ [poll_log p s c, (r, [LedcWriteNote 0 NOTE_A 7, LedcWrite (channel p) (volume p)])])"
    using polls_quiet_stretch [OF on pre_ok, of "[c, r]"] unfolding tail pl by simp
  show ?thesis
    by (simp add: first mid)
qed

lemma click_starts_cycle:
  "click_starts ((s, [LedcWriteNote 0 NOTE_A 7, LedcWrite ch v])
      # map (poll_log p s) xs @ [(r, [LedcWriteNote 0 NOTE_A 7, LedcWrite ch v])]) = [s, r]"
proof -
  have "filter (\<lambda>e. list_ex is_start_tone (snd e)) (map (poll_log p s) xs) = []"
    by (induction xs) (simp_all add: poll_log_def)
  then show ?thesis
    by (simp add: click_starts_def)
qed

lemma last_within:
  "\<forall>x \<in> set xs. x - s \<le> (b :: nat) \<Longrightarrow> last (s # xs) - s \<le> b"
  by (cases "xs = []") auto

lemma sorted_last_between:
  "sorted (s # xs @ c # ys) \<Longrightarrow> s \<le> last (s # xs) \<and> last (s # xs) \<le> (c :: nat)"
  by (cases "xs = []") (auto simp: sorted_append)

lemma beat_interval_positive:
  "0 < sint (tempo p) \<Longrightarrow> beat_interval p = 60000 div nat (sint (tempo p))"
  by (simp add: beat_interval_def unat_div unat_positive_i32)

lemma playBeats_one_poll:
  assumes "tempo p \<noteq> 0"
  shows "playBeats p t0 t1 t2 =
     (if started p
      then Inr (if 60000 div tempo p < elapsed t2 (msStart p) then p\<lparr>started := False\<rparr> else p,
                if 4 < elapsed t1 (msStart p) then [LedcWrite (channel p) 0] else [])
      else Inr (if 60000 div tempo p < elapsed t2 t0
                then p\<lparr>started := False, msStart := t0\<rparr>
                else p\<lparr>started := True, msStart := t0\<rparr>,
                LedcWriteNote 0 NOTE_A 7 # LedcWrite (channel p) (volume p)
                # (if 4 < elapsed t1 t0 then [LedcWrite (channel p) 0] else [])))"
  using assms by (simp add: playBeats_def Let_def mute_def)

lemma click_width:
  assumes sorted: "sorted (s # xs @ q # ys)"
    and early: "\<forall>x \<in> set xs. x - s \<le> 4" and late: "4 < q - s"
  shows "map (poll_log p s) (xs @ q # ys) =
           map (\<lambda>x. (x, [])) xs @ map (\<lambda>x. (x, [LedcWrite (channel p) 0])) (q # ys)
         \<and> q - s \<le> 4 + (q - last (s # xs))"
proof
  have "\<forall>y \<in> set (q # ys). 4 < y - s"
    using sorted late by (auto simp: sorted_append)
  then have "map (poll_log p s) (q # ys) = map (\<lambda>x. (x, [LedcWrite (channel p) 0])) (q # ys)"
    by (intro map_cong) (auto simp: poll_log_def)
  moreover have "map (poll_log p s) xs = map (\<lambda>x. (x, [])) xs"
    using early by (intro map_cong) (auto simp: poll_log_def)
  ultimately show "map (poll_log p s) (xs @ q # ys) =
           map (\<lambda>x. (x, [])) xs @ map (\<lambda>x. (x, [LedcWrite (channel p) 0])) (q # ys)"
    by simp
  have "last (s # xs) - s \<le> 4"
    using early by (rule last_within)
  moreover have "s \<le> last (s # xs) \<and> last (s # xs) \<le> q"
    using sorted by (rule sorted_last_between)
  ultimately show "q - s \<le> 4 + (q - last (s # xs))"
    by linarith
qed

text \<open>
  Claim C7, amended. For every tempo other than 0 (every \<open>t > 0\<close> in particular, where
  the beat interval is \<open>60000 / t\<close>): a poll with the started flag clear issues the
  reference pitch on channel 0 and the configured amplitude, records the start time and
  sets the flag; every poll, this one included, then issues a silence command when the
  elapsed time is more than 4 ms and clears the flag when it is more than the beat
  interval. In a run of polls that each read one clock value, after a trigger at the time
  \<open>s\<close> the polls up to the beat interval after \<open>s\<close> and the first poll \<open>c\<close> later
  than that issue no frequency command, and the poll \<open>r\<close> after \<open>c\<close> is the next
  trigger: consecutive start edges are more than the beat interval apart, and at most the
  beat interval plus the two poll intervals before \<open>r\<close>. The polls that are more than
  4 ms after \<open>s\<close> are the ones that issue the silence command, so the click ends at the
  first of them, at most 4 ms plus one poll interval after \<open>s\<close>; when the beat
  interval is at least 4 ms there is one, since the poll \<open>c\<close> is among them.
\<close>

theorem metronome_clicks:
  assumes tempo: "tempo p \<noteq> 0"
  shows "playBeats p t0 t1 t2 =
     (if started p
      then Inr (if 60000 div tempo p < elapsed t2 (msStart p) then p\<lparr>started := False\<rparr> else p,
                if 4 < elapsed t1 (msStart p) then [LedcWrite (channel p) 0] else [])
      else Inr (if 60000 div tempo p < elapsed t2 t0
                then p\<lparr>started := False, msStart := t0\<rparr>
                else p\<lparr>started := True, msStart := t0\<rparr>,
                LedcWriteNote 0 NOTE_A 7 # LedcWrite (channel p) (volume p)
                # (if 4 < elapsed t1 t0 then [LedcWrite (channel p) 0] else [])))
   \<and> (0 < sint (tempo p) \<longrightarrow> beat_interval p = 60000 div nat (sint (tempo p)))
   \<and> (\<not> started p \<and> sorted (s # pre @ [c, r]) \<and> r - s < 2 ^ 32
        \<and> (\<forall>x \<in> set pre. x - s \<le> beat_interval p) \<and> beat_interval p < c - s \<longrightarrow>
      (\<exists>log. playBeats_polls p (s # pre @ [c, r]) =
                Inr (p\<lparr>started := True, msStart := of_nat r\<rparr>, log)
         \<and> log = (s, [LedcWriteNote 0 NOTE_A 7, LedcWrite (channel p) (volume p)])
                 # map (poll_log p s) (pre @ [c])
                 @ [(r, [LedcWriteNote 0 NOTE_A 7, LedcWrite (channel p) (volume p)])]
         \<and> click_starts log = [s, r])
      \<and> beat_interval p < r - s
      \<and> r - s \<le> beat_interval p + (c - last (s # pre)) + (r - c)
      \<and> (4 \<le> beat_interval p \<longrightarrow> poll_log p s c = (c, [LedcWrite (channel p) 0]))
      \<and> (\<forall>xs q ys. pre @ [c] = xs @ q # ys \<and> (\<forall>x \<in> set xs. x - s \<le> 4) \<and> 4 < q - s \<longrightarrow>
            map (poll_log p s) (pre @ [c]) =
              map (\<lambda>x. (x, [])) xs @ map (\<lambda>x. (x, [LedcWrite (channel p) 0])) (q # ys)
            \<and> q - s \<le> 4 + (q - last (s # xs))))"
proof (intro conjI impI allI)
  show "playBeats p t0 t1 t2 =
     (if started p
      then Inr (if 60000 div tempo p < elapsed t2 (msStart p) then p\<lparr>started := False\<rparr> else p,
                if 4 < elapsed t1 (msStart p) then [LedcWrite (channel p) 0] else [])
      else Inr (if 60000 div tempo p < elapsed t2 t0
                then p\<lparr>started := False, msStart := t0\<rparr>
                else p\<lparr>started := True, msStart := t0\<rparr>,
                LedcWriteNote 0 NOTE_A 7 # LedcWrite (channel p) (volume p)
                # (if 4 < elapsed t1 t0 then [LedcWrite (channel p) 0] else [])))"
    using tempo by (rule playBeats_one_poll)
next
  assume "0 < sint (tempo p)"
  then show "beat_interval p = 60000 div nat (sint (tempo p))"
    by (rule beat_interval_positive)
next
  assume a: "\<not> started p \<and> sorted (s # pre @ [c, r]) \<and> r - s < 2 ^ 32
        \<and> (\<forall>x \<in> set pre. x - s \<le> beat_interval p) \<and> beat_interval p < c - s"
  then have idle: "\<not> started p" and sorted: "sorted (s # pre @ [c, r])"
    and range: "r - s < 2 ^ 32" and within: "\<forall>x \<in> set pre. x - s \<le> beat_interval p"
    and beyond: "beat_interval p < c - s"
    by blast+
  have ord: "s \<le> c" "c \<le> r"
    using sorted by (auto simp: sorted_append)
  have lst: "s \<le> last (s # pre) \<and> last (s # pre) \<le> c"
    using sorted by (rule sorted_last_between)
  have lst2: "last (s # pre) - s \<le> beat_interval p"
    using within by (rule last_within)
  show "\<exists>log. playBeats_polls p (s # pre @ [c, r]) =
                Inr (p\<lparr>started := True, msStart := of_nat r\<rparr>, log)
         \<and> log = (s, [LedcWriteNote 0 NOTE_A 7, LedcWrite (channel p) (volume p)])
                 # map (poll_log p s) (pre @ [c])
                 @ [(r, [LedcWriteNote 0 NOTE_A 7, LedcWrite (channel p) (volume p)])]
         \<and> click_starts log = [s, r]"
    using beat_cycle_log [OF idle tempo sorted range within beyond]
      click_starts_cycle [of s "channel p" "volume p" p "pre @ [c]" r]
    by blast
  show "beat_interval p < r - s"
    using beyond ord by linarith
  show "r - s \<le> beat_interval p + (c - last (s # pre)) + (r - c)"
    using lst lst2 ord by linarith
  show "poll_log p s c = (c, [LedcWrite (channel p) 0])" if "4 \<le> beat_interval p"
    using that beyond by (simp add: poll_log_def)
  fix xs q ys
  assume b: "pre @ [c] = xs @ q # ys \<and> (\<forall>x \<in> set xs. x - s \<le> 4) \<and> 4 < q - s"
  have "sorted (s # pre @ [c])"
    using sorted by (auto simp: sorted_append)
  then have "sorted (s # xs @ q # ys)"
    using b by simp
  then have "map (poll_log p s) (xs @ q # ys) =
           map (\<lambda>x. (x, [])) xs @ map (\<lambda>x. (x, [LedcWrite (channel p) 0])) (q # ys)
         \<and> q - s \<le> 4 + (q - last (s # xs))"
    using b by (intro click_width) blast+
  then show "map (poll_log p s) (pre @ [c]) =
              map (\<lambda>x. (x, [])) xs @ map (\<lambda>x. (x, [LedcWrite (channel p) 0])) (q # ys)"
    and "q - s \<le> 4 + (q - last (s # xs))"
    using b by simp_all
qed

text \<open>
  Claim C7, as stated, fails in its two consequences. At tempo 120 the beat interval is
  500 ms; polled every 100 ms, the metronome clears its flag at 600 ms (the first poll
  later than 500 ms) and triggers again only on the poll after, at 700 ms: the start edges
  are 700 ms apart, more than 500 ms plus one poll interval. At tempo 20000 the beat
  interval is 3 ms; polled every millisecond, the flag is cleared at 4 ms, where the
  elapsed time is not yet more than 4, and the click is triggered again at 5 ms: no
  silence command is ever issued, so the tone is never switched off.
\<close>

theorem metronome_spacing_counterexample:
  "0 < sint (120 :: i32) \<and> tempo (beat_player 120) = 120 \<and> beat_interval (beat_player 120) = 500
   \<and> playBeats_polls (beat_player 120) [0, 100, 200, 300, 400, 500, 600, 700] =
        Inr ((beat_player 120)\<lparr>started := True, msStart := 700\<rparr>,
             [(0, [LedcWriteNote 0 NOTE_A 7, LedcWrite 0 100]),
              (100, [LedcWrite 0 0]), (200, [LedcWrite 0 0]), (300, [LedcWrite 0 0]),
              (400, [LedcWrite 0 0]), (500, [LedcWrite 0 0]), (600, [LedcWrite 0 0]),
              (700, [LedcWriteNote 0 NOTE_A 7, LedcWrite 0 100])])
   \<and> click_starts
        [(0, [LedcWriteNote 0 NOTE_A 7, LedcWrite 0 100]),
         (100, [LedcWrite 0 0]), (200, [LedcWrite 0 0]), (300, [LedcWrite 0 0]),
         (400, [LedcWrite 0 0]), (500, [LedcWrite 0 0]), (600, [LedcWrite 0 0]),
         (700, [LedcWriteNote 0 NOTE_A 7, LedcWrite 0 100])] = [0, 700]
   \<and> \<not> (700 - 0 \<le> beat_interval (beat_player 120) + (100 :: nat))
   \<and> 0 < sint (20000 :: i32) \<and> tempo (beat_player 20000) = 20000
   \<and> beat_interval (beat_player 20000) = 3
   \<and> playBeats_polls (beat_player 20000) [0, 1, 2, 3, 4, 5, 6, 7, 8, 9, 10] =
        Inr ((beat_player 20000)\<lparr>started := True, msStart := 10\<rparr>,
             [(0, [LedcWriteNote 0 NOTE_A 7, LedcWrite 0 100]),
              (1, []), (2, []), (3, []), (4, []),
              (5, [LedcWriteNote 0 NOTE_A 7, LedcWrite 0 100]),
              (6, []), (7, []), (8, []), (9, []),
              (10, [LedcWriteNote 0 NOTE_A 7, LedcWrite 0 100])])"
  by (simp add: beat_player_def beat_interval_def click_starts_def demo_player_def setTempo_def
      setVolume_def MelodyPlayer_def playBeats_def Let_def elapsed_def mute_def)

theorem metronome_clicks_witness:
  "tempo (beat_player 120) \<noteq> 0 \<and> 0 < sint (tempo (beat_player 120))
   \<and> beat_interval (beat_player 120) = 500
   \<and> \<not> started (beat_player 120)
   \<and> sorted (0 # [100, 200, 300, 400, 500] @ [600, 700 :: nat])
   \<and> (700 :: nat) - 0 < 2 ^ 32
   \<and> list_all (\<lambda>x. x - 0 \<le> beat_interval (beat_player 120)) [100, 200, 300, 400, 500]
   \<and> beat_interval (beat_player 120) < 600 - 0
   \<and> playBeats_polls (beat_player 120) (0 # [100, 200, 300, 400, 500] @ [600, 700]) =
        Inr ((beat_player 120)\<lparr>started := True, msStart := 700\<rparr>,
             [(0, [LedcWriteNote 0 NOTE_A 7, LedcWrite 0 100]),
              (100, [LedcWrite 0 0]), (200, [LedcWrite 0 0]), (300, [LedcWrite 0 0]),
              (400, [LedcWrite 0 0]), (500, [LedcWrite 0 0]), (600, [LedcWrite 0 0]),
              (700, [LedcWriteNote 0 NOTE_A 7, LedcWrite 0 100])])
   \<and> beat_interval (beat_player 120) < 700 - 0
   \<and> (700 :: nat) - 0 \<le> beat_interval (beat_player 120)
        + (600 - last (0 # [100, 200, 300, 400, 500])) + (700 - 600)
   \<and> (4 :: nat) \<le> beat_interval (beat_player 120)
   \<and> poll_log (beat_player 120) 0 600 = (600, [LedcWrite 0 0])"
proof -
  have t: "tempo (beat_player 120) \<noteq> 0" "0 < sint (tempo (beat_player 120))"
    "\<not> started (beat_player 120)" "channel (beat_player 120) = 0"
    "volume (beat_player 120) = 100"
    by (simp_all add: beat_player_def demo_player_def setTempo_def setVolume_def MelodyPlayer_def)
  have bi: "beat_interval (beat_player 120) = 500"
    by (simp add: beat_interval_def beat_player_def setTempo_def)
  have srt: "sorted (0 # [100, 200, 300, 400, 500] @ [600, 700 :: nat])"
    by simp
  have rng: "(700 :: nat) - 0 < 2 ^ 32"
    by simp
  have pre: "\<forall>x \<in> set [100, 200, 300, 400, 500]. x - 0 \<le> beat_interval (beat_player 120)"
    unfolding bi by simp
  have cl: "beat_interval (beat_player 120) < 600 - 0"
    unfolding bi by simp
  note run = metronome_clicks [OF t(1), of 0 0 0 0 "[100, 200, 300, 400, 500]" 600 700,
      THEN conjunct2, THEN conjunct2, THEN mp,
      OF conjI [OF t(3) conjI [OF srt conjI [OF rng conjI [OF pre cl]]]]]
  have four: "(4 :: nat) \<le> beat_interval (beat_player 120)"
    unfolding bi by simp
  show ?thesis
    using t(1,2,3) bi srt rng cl four run
    by (simp add: poll_log_def t(4,5))
qed

end
